theory Spec2Isabelle
  imports Complex_Main "HOL-Library.AList" "HOL-Library.Word"
begin

section \<open>JavaScript values used by the loader\<close>

text \<open>
  The loader \<^verbatim>\<open>src/loaders/lib/parse-fourwings.ts\<close> is TypeScript. Its numbers are
  modelled exactly where they are integers (stream tokens, frames, indices, counters of
  the loops) and as exact rationals extended with the three special values of a double
  where they are sample values and aggregates: rounding of doubles is not modelled, the
  values \<^verbatim>\<open>NaN\<close> and \<^verbatim>\<open>Infinity\<close> are, since the code can produce them.
  \<^verbatim>\<open>undefined\<close> is \<open>None\<close>. An exception is a value of type \<open>error\<close>: the loader's own
  code throws a \<^verbatim>\<open>TypeError\<close> (a property of \<^verbatim>\<open>undefined\<close> is read) or a
  \<^verbatim>\<open>RangeError\<close> (the length of a new array is invalid); the \<^verbatim>\<open>pbf\<close> reader that it
  calls may throw these and the plain \<^verbatim>\<open>Error\<close>.
\<close>

datatype error = TypeError | RangeError | Error

datatype jsnum = Fin rat | PosInf | NegInf | NaN

text \<open>\<^verbatim>\<open>a + b\<close> on numbers.\<close>

fun jsadd :: "jsnum \<Rightarrow> jsnum \<Rightarrow> jsnum" where
  "jsadd (Fin a) (Fin b) = Fin (a + b)"
| "jsadd NaN _ = NaN"
| "jsadd _ NaN = NaN"
| "jsadd PosInf NegInf = NaN"
| "jsadd NegInf PosInf = NaN"
| "jsadd PosInf _ = PosInf"
| "jsadd _ PosInf = PosInf"
| "jsadd NegInf _ = NegInf"
| "jsadd _ NegInf = NegInf"

text \<open>
  \<^verbatim>\<open>a / b\<close> on numbers. A zero divisor is the positive zero: the only divisor of the
  loader is a counter that starts at \<^verbatim>\<open>0\<close> and is incremented.
\<close>

fun jsdiv :: "jsnum \<Rightarrow> jsnum \<Rightarrow> jsnum" where
  "jsdiv (Fin a) (Fin b) =
     (if b \<noteq> 0 then Fin (a / b)
      else if a = 0 then NaN else if 0 < a then PosInf else NegInf)"
| "jsdiv NaN _ = NaN"
| "jsdiv _ NaN = NaN"
| "jsdiv (Fin a) _ = Fin 0"
| "jsdiv PosInf (Fin b) = (if 0 \<le> b then PosInf else NegInf)"
| "jsdiv NegInf (Fin b) = (if 0 \<le> b then NegInf else PosInf)"
| "jsdiv PosInf _ = NaN"
| "jsdiv NegInf _ = NaN"

text \<open>The number an array slot converts to: a hole reads \<^verbatim>\<open>undefined\<close>, which is \<^verbatim>\<open>NaN\<close>.\<close>

definition toNumber :: "jsnum option \<Rightarrow> jsnum" where
  "toNumber v = (case v of None \<Rightarrow> NaN | Some x \<Rightarrow> x)"

text \<open>
  A JavaScript array: its \<^verbatim>\<open>length\<close> and its properties. A property whose key is an
  array index (an integer from \<open>0\<close> to \<open>2^32 - 2\<close>) at or beyond the length extends the
  array; any other integer key (\<^verbatim>\<open>a[-1] = v\<close>) is an ordinary property and leaves the length
  alone. A key without a property reads \<^verbatim>\<open>undefined\<close>.
\<close>

record 'a jsarray =
  alength :: nat
  aprops :: "int \<Rightarrow> 'a option"

definition emptyArray :: "nat \<Rightarrow> 'a jsarray" where
  "emptyArray n = \<lparr>alength = n, aprops = (\<lambda>_. None)\<rparr>"

text \<open>\<^verbatim>\<open>new Array(n)\<close> for an integer \<open>n\<close>: a \<^verbatim>\<open>RangeError\<close> unless \<open>0 \<le> n \<le> 2^32 - 1\<close>.\<close>

definition newArray :: "int \<Rightarrow> error + 'a jsarray" where
  "newArray n = (if 0 \<le> n \<and> n \<le> 4294967295 then Inr (emptyArray (nat n)) else Inl RangeError)"

text \<open>\<^verbatim>\<open>a[k] = v\<close>.\<close>

definition arraySet :: "'a jsarray \<Rightarrow> int \<Rightarrow> 'a \<Rightarrow> 'a jsarray" where
  "arraySet a k v =
     \<lparr>alength = (if 0 \<le> k \<and> k < 4294967295 \<and> alength a \<le> nat k then nat k + 1 else alength a),
      aprops = (aprops a)(k \<mapsto> v)\<rparr>"

text \<open>\<^verbatim>\<open>new Array(n).fill(0)\<close>.\<close>

definition filledArray :: "nat \<Rightarrow> 'a \<Rightarrow> 'a jsarray" where
  "filledArray n v = \<lparr>alength = n, aprops = (\<lambda>k. if 0 \<le> k \<and> k < int n then Some v else None)\<rparr>"

text \<open>
  A decoded stream is an array of non-negative integers; \<^verbatim>\<open>subLayerIntArray[k]\<close> is
  \<^verbatim>\<open>undefined\<close> for a \<open>k\<close> outside of it. An element of \<^verbatim>\<open>intArrays\<close> is such an array
  or \<^verbatim>\<open>undefined\<close>, which is what the reader's \<^verbatim>\<open>readFields(readData, [])[0]\<close> is for a
  buffer without a field.
\<close>

definition streamGet :: "nat list \<Rightarrow> int \<Rightarrow> nat option" where
  "streamGet xs k = (if 0 \<le> k \<and> k < int (length xs) then Some (xs ! nat k) else None)"

section \<open>Options, collaborators and features\<close>

definition NO_DATA_VALUE :: int where "NO_DATA_VALUE = 4294967295"
definition SCALE_VALUE :: rat where "SCALE_VALUE = 1"
definition OFFSET_VALUE :: rat where "OFFSET_VALUE = 0"
definition CELL_NUM_INDEX :: int where "CELL_NUM_INDEX = 0"
definition CELL_START_INDEX :: int where "CELL_START_INDEX = 1"
definition CELL_END_INDEX :: int where "CELL_END_INDEX = 2"
definition CELL_VALUES_START_INDEX :: int where "CELL_VALUES_START_INDEX = 3"

record time_range =
  range_start :: int
  range_end :: int

record bounding_box =
  west :: rat
  south :: rat
  east :: rat
  north :: rat

record tile_index =
  tile_x :: int
  tile_y :: int

record tile_descr =
  bbox :: bounding_box
  index :: tile_index

text \<open>
  \<^verbatim>\<open>ParseFourwingsOptions\<close>. The five fields that \<^verbatim>\<open>getCellTimeseries\<close> reads with a
  default or tests for absence are optional.
\<close>

record parse_options =
  opt_bufferedStartDate :: int
  opt_interval :: string
  opt_sublayers :: int
  opt_initialTimeRange :: "time_range option"
  opt_aggregationOperation :: "string option"
  opt_scale :: "rat option"
  opt_offset :: "rat option"
  opt_noDataValue :: "int option"
  opt_tile :: "tile_descr option"
  opt_cols :: int
  opt_rows :: int
  opt_buffersLength :: "nat list option"

record loader_options =
  fourwings :: "parse_options option"

text \<open>
  The code that the loader imports and that is not part of it: the table
  \<^verbatim>\<open>CONFIG_BY_INTERVAL\<close> and \<^verbatim>\<open>getTimeRangeKey\<close> of \<^verbatim>\<open>helpers/time\<close>, the three
  functions of \<^verbatim>\<open>helpers/cells\<close>, and the \<^verbatim>\<open>pbf\<close> reader
  (\<^verbatim>\<open>new Pbf(buffer).readFields(readData, [])[0]\<close>, line 205). They are parameters. The
  helpers are taken as functions that return. The reader is not: on a buffer it throws
  an exception, or it returns the first element of the array of the fields it read, the
  numbers of the first field or \<^verbatim>\<open>undefined\<close> when there is no field.
\<close>

record interval_config =
  getIntervalFrame :: "int \<Rightarrow> int"
  getIntervalTimestamp :: "int \<Rightarrow> int"

record externals =
  CONFIG_BY_INTERVAL :: "string \<Rightarrow> interval_config option"
  getTimeRangeKey :: "int \<Rightarrow> int \<Rightarrow> string"
  getCellProperties :: "rat list \<Rightarrow> nat option \<Rightarrow> int \<Rightarrow> int \<times> int"
  getCellCoordinates :: "nat option \<Rightarrow> int \<Rightarrow> int \<Rightarrow> rat list \<Rightarrow> (rat \<times> rat) list"
  generateUniqueId :: "int \<Rightarrow> int \<Rightarrow> nat option \<Rightarrow> int"
  readPackedFields :: "8 word list \<Rightarrow> error + nat list option"

text \<open>\<^verbatim>\<open>FourwingsFeature\<close>: the geometry's coordinates and the properties.\<close>

record feature =
  coordinates :: "(rat \<times> rat) list list"
  col :: int
  row :: int
  "values" :: "jsnum jsarray jsarray"
  dates :: "int jsarray jsarray"
  cellId :: int
  cellNum :: "nat option"
  startOffsets :: "int jsarray"
  initialValues :: "string \<Rightarrow> jsnum jsarray option"

text \<open>
  The constants of one call of \<^verbatim>\<open>getCellTimeseries\<close> (lines 29 to 63): the options
  with their defaults applied and the values derived from them.
\<close>

record env =
  sublayers :: int
  aggregationOperation :: string
  scale :: rat
  offset :: rat
  noDataValue :: int
  tile :: tile_descr
  cols :: int
  rows :: int
  intervalConfig :: interval_config
  tileStartFrame :: int
  timeRangeStartFrame :: int
  timeRangeEndFrame :: int
  timeRangeKey :: string
  tileBBox :: "rat list"
  sublayersLength :: nat


type_synonym features = "(nat option \<times> feature) list"

section \<open>The cell-timeseries assembler\<close>

text \<open>
  The object \<^verbatim>\<open>features\<close> (line 62) is the list of its properties in the order of
  their creation; the key of a property is the cell number (\<^verbatim>\<open>undefined\<close> when the
  token was read outside of the stream). \<^verbatim>\<open>features[cellNum]\<close> is \<open>map_of\<close>,
  a change of a feature that exists is \<open>AList.update\<close>, which keeps its place.
\<close>

text \<open>The negation of \<^verbatim>\<open>cellValue !== noDataValue\<close> (line 123).\<close>

definition isNoData :: "env \<Rightarrow> nat option \<Rightarrow> bool" where
  "isNoData e cellValue = (case cellValue of None \<Rightarrow> False | Some v \<Rightarrow> int v = noDataValue e)"

text \<open>\<^verbatim>\<open>cellValue * scale - offset\<close> (lines 141 and 156); \<^verbatim>\<open>undefined * scale\<close> is \<^verbatim>\<open>NaN\<close>.\<close>

definition transformed :: "env \<Rightarrow> nat option \<Rightarrow> jsnum" where
  "transformed e cellValue =
     (case cellValue of None \<Rightarrow> NaN | Some v \<Rightarrow> Fin (of_nat v * scale e - offset e))"

text \<open>The feature of lines 94 to 118.\<close>

definition newFeature :: "externals \<Rightarrow> env \<Rightarrow> nat option \<Rightarrow> feature" where
  "newFeature x e cn =
     (let (c, r) = getCellProperties x (tileBBox e) cn (cols e) in
      \<lparr>coordinates = [getCellCoordinates x cn (cols e) (rows e) (tileBBox e)],
       col = c,
       row = r,
       values = emptyArray (sublayersLength e),
       dates = emptyArray (sublayersLength e),
       cellId = generateUniqueId x (tile_x (index (tile e))) (tile_y (index (tile e))) cn,
       cellNum = cn,
       startOffsets = emptyArray (sublayersLength e),
       initialValues = (\<lambda>_. None)(timeRangeKey e \<mapsto> emptyArray (sublayersLength e))\<rparr>)"

text \<open>Lines 126 to 136: the properties of one sublayer, created at its first value.\<close>

definition createSublayerProperties :: "env \<Rightarrow> nat \<Rightarrow> int \<Rightarrow> int \<Rightarrow> feature \<Rightarrow> error + feature" where
  "createSublayerProperties e subLayerIndex startFrame numCellValues f =
     (case newArray numCellValues of Inl err \<Rightarrow> Inl err | Inr va \<Rightarrow>
       (case newArray numCellValues of Inl err \<Rightarrow> Inl err | Inr da \<Rightarrow>
         (case initialValues f (timeRangeKey e) of None \<Rightarrow> Inl TypeError | Some iv \<Rightarrow>
            Inr (f\<lparr>values := arraySet (values f) (int subLayerIndex) va,
                   dates := arraySet (dates f) (int subLayerIndex) da,
                   startOffsets := arraySet (startOffsets f) (int subLayerIndex) startFrame,
                   initialValues := (initialValues f)(timeRangeKey e \<mapsto>
                      arraySet iv (int subLayerIndex) (Fin 0))\<rparr>))))"

text \<open>
  Lines 139 to 147: the value and its date are written at \<^verbatim>\<open>Math.floor(j / sublayers)\<close>.
  The body of the loop runs for \<open>j < numCellValues\<close> only, a product with
  \<open>sublayers\<close> as a factor, so \<open>sublayers\<close> is not \<open>0\<close> there and the quotient of the two
  integers, rounded down, is \<open>div\<close>.
\<close>

definition storeValue :: "env \<Rightarrow> nat \<Rightarrow> int \<Rightarrow> nat \<Rightarrow> jsnum \<Rightarrow> feature \<Rightarrow> error + feature" where
  "storeValue e subLayerIndex startFrame j v f =
     (case aprops (values f) (int subLayerIndex) of None \<Rightarrow> Inl TypeError | Some va \<Rightarrow>
       (case aprops (dates f) (int subLayerIndex) of None \<Rightarrow> Inl TypeError | Some da \<Rightarrow>
          Inr (f\<lparr>values := (values f)\<lparr>aprops := (aprops (values f))(int subLayerIndex \<mapsto>
                    arraySet va (int j div sublayers e) v)\<rparr>,
                 dates := (dates f)\<lparr>aprops := (aprops (dates f))(int subLayerIndex \<mapsto>
                    arraySet da (int j div sublayers e)
                      (getIntervalTimestamp (intervalConfig e) (startFrame + tileStartFrame e + int j)))\<rparr>\<rparr>)))"

text \<open>The test of lines 151 and 152.\<close>

definition inTimeRange :: "env \<Rightarrow> int \<Rightarrow> nat \<Rightarrow> bool" where
  "inTimeRange e startFrame j =
     (timeRangeStartFrame e \<le> int j + startFrame \<and> int j + startFrame < timeRangeEndFrame e)"

text \<open>Lines 154 to 158.\<close>

definition sumValue :: "env \<Rightarrow> nat \<Rightarrow> jsnum \<Rightarrow> feature \<times> jsnum jsarray \<Rightarrow> error + feature \<times> jsnum jsarray" where
  "sumValue e subLayerIndex v st =
     (case st of (f, numValuesBySubLayer) \<Rightarrow>
       (case initialValues f (timeRangeKey e) of None \<Rightarrow> Inl TypeError | Some iv \<Rightarrow>
          Inr (f\<lparr>initialValues := (initialValues f)(timeRangeKey e \<mapsto>
                    arraySet iv (int subLayerIndex)
                      (jsadd (toNumber (aprops iv (int subLayerIndex))) v))\<rparr>,
               arraySet numValuesBySubLayer (int subLayerIndex)
                 (jsadd (toNumber (aprops numValuesBySubLayer (int subLayerIndex))) (Fin 1)))))"

text \<open>One round of the loop of line 121, for the feature \<^verbatim>\<open>features[cellNum]\<close>.\<close>

definition addCellValue ::
  "env \<Rightarrow> nat \<Rightarrow> nat list \<Rightarrow> int \<Rightarrow> int \<Rightarrow> int \<Rightarrow> nat \<Rightarrow> feature \<times> jsnum jsarray
     \<Rightarrow> error + feature \<times> jsnum jsarray" where
  "addCellValue e subLayerIndex subLayerIntArray startFrame numCellValues startIndex j st =
     (case st of (f, numValuesBySubLayer) \<Rightarrow>
      (let cellValue = streamGet subLayerIntArray (int j + startIndex) in
       if isNoData e cellValue then Inr st
       else
         (case (case aprops (values f) (int subLayerIndex) of
                  None \<Rightarrow> createSublayerProperties e subLayerIndex startFrame numCellValues f
                | Some _ \<Rightarrow> Inr f) of
            Inl err \<Rightarrow> Inl err
          | Inr f1 \<Rightarrow>
             (case storeValue e subLayerIndex startFrame j (transformed e cellValue) f1 of
                Inl err \<Rightarrow> Inl err
              | Inr f2 \<Rightarrow>
                  if inTimeRange e startFrame j
                  then sumValue e subLayerIndex (transformed e cellValue) (f2, numValuesBySubLayer)
                  else Inr (f2, numValuesBySubLayer)))))"

text \<open>
  The loop of line 121, \<open>j\<close> from \<open>0\<close> up to the bound: the first \<open>n\<close> rounds, then round
  \<open>n\<close>. An exception ends it.
\<close>

fun cellValuesLoop ::
  "env \<Rightarrow> nat \<Rightarrow> nat list \<Rightarrow> int \<Rightarrow> int \<Rightarrow> int \<Rightarrow> nat \<Rightarrow> feature \<times> jsnum jsarray
     \<Rightarrow> error + feature \<times> jsnum jsarray" where
  "cellValuesLoop e subLayerIndex subLayerIntArray startFrame numCellValues startIndex 0 st = Inr st"
| "cellValuesLoop e subLayerIndex subLayerIntArray startFrame numCellValues startIndex (Suc n) st =
     (case cellValuesLoop e subLayerIndex subLayerIntArray startFrame numCellValues startIndex n st of
        Inl err \<Rightarrow> Inl err
      | Inr st' \<Rightarrow> addCellValue e subLayerIndex subLayerIntArray startFrame numCellValues startIndex n st')"

text \<open>Lines 162 to 169.\<close>

definition averageValue :: "env \<Rightarrow> nat \<Rightarrow> feature \<times> jsnum jsarray \<Rightarrow> error + feature" where
  "averageValue e subLayerIndex st =
     (case st of (f, numValuesBySubLayer) \<Rightarrow>
      if aggregationOperation e = ''avg'' then
        (case initialValues f (timeRangeKey e) of None \<Rightarrow> Inl TypeError | Some iv \<Rightarrow>
           Inr (f\<lparr>initialValues := (initialValues f)(timeRangeKey e \<mapsto>
                  arraySet iv (int subLayerIndex)
                    (jsdiv (toNumber (aprops iv (int subLayerIndex)))
                       (toNumber (aprops numValuesBySubLayer (int subLayerIndex)))))\<rparr>))
      else Inr f)"

text \<open>
  The variables of the loop over one stream (lines 69 to 73). A frame is \<open>None\<close> when it
  is \<^verbatim>\<open>NaN\<close>, the difference of \<^verbatim>\<open>undefined\<close> and the tile's start frame.
\<close>

record locals =
  l_cellNum :: "nat option"
  l_startFrame :: "int option"
  l_endFrame :: "int option"
  l_startIndex :: int
  l_indexInCell :: int

text \<open>Line 89: \<^verbatim>\<open>(endFrame - startFrame + 1) * sublayers\<close>, \<^verbatim>\<open>NaN\<close> when a frame is.\<close>

definition numCellValuesOf :: "env \<Rightarrow> int option \<Rightarrow> int option \<Rightarrow> int option" where
  "numCellValuesOf e startFrame endFrame =
     (case (endFrame, startFrame) of
        (Some en, Some st) \<Rightarrow> Some ((en - st + 1) * sublayers e)
      | _ \<Rightarrow> None)"

text \<open>
  Lines 93 to 119: the feature is added when \<^verbatim>\<open>features[cellNum]\<close> is not there yet;
  \<open>cellFeature\<close> is \<^verbatim>\<open>features[cellNum]\<close> after that.
\<close>

definition addFeature :: "externals \<Rightarrow> env \<Rightarrow> nat option \<Rightarrow> features \<Rightarrow> features" where
  "addFeature x e cn fs =
     (case map_of fs cn of None \<Rightarrow> fs @ [(cn, newFeature x e cn)] | Some _ \<Rightarrow> fs)"

definition cellFeature :: "externals \<Rightarrow> env \<Rightarrow> nat option \<Rightarrow> features \<Rightarrow> feature" where
  "cellFeature x e cn fs =
     (case map_of fs cn of None \<Rightarrow> newFeature x e cn | Some f \<Rightarrow> f)"

text \<open>
  The loop of lines 121 to 161 with its bound: no round when \<open>numCellValues\<close> is
  \<^verbatim>\<open>NaN\<close>, zero or negative.
\<close>

definition readCellValues ::
  "env \<Rightarrow> nat \<Rightarrow> nat list \<Rightarrow> int option \<Rightarrow> int \<Rightarrow> int option \<Rightarrow> feature \<times> jsnum jsarray
     \<Rightarrow> error + feature \<times> jsnum jsarray" where
  "readCellValues e subLayerIndex subLayerIntArray startFrame startIndex numCellValues st =
     (case (numCellValues, startFrame) of
        (Some n, Some sf) \<Rightarrow>
          cellValuesLoop e subLayerIndex subLayerIntArray sf n startIndex (nat n) st
      | _ \<Rightarrow> Inr st)"

text \<open>
  Lines 86 to 173, the branch of the third token of a cell: the new value of \<^verbatim>\<open>i\<close>
  (\<open>None\<close> is \<^verbatim>\<open>NaN\<close>) and the features.
\<close>

definition readCell ::
  "externals \<Rightarrow> env \<Rightarrow> nat \<Rightarrow> nat list \<Rightarrow> locals \<Rightarrow> nat option \<Rightarrow> features
     \<Rightarrow> error + locals \<times> int option \<times> features" where
  "readCell x e subLayerIndex subLayerIntArray l val fs =
     (let endFrame = map_option (\<lambda>v. int v - tileStartFrame e) val;
          numCellValues = numCellValuesOf e (l_startFrame l) endFrame;
          numValuesBySubLayer = filledArray (sublayersLength e) (Fin 0)
      in case readCellValues e subLayerIndex subLayerIntArray (l_startFrame l) (l_startIndex l)
                numCellValues (cellFeature x e (l_cellNum l) fs, numValuesBySubLayer) of
           Inl err \<Rightarrow> Inl err
         | Inr st' \<Rightarrow>
            (case averageValue e subLayerIndex st' of
               Inl err \<Rightarrow> Inl err
             | Inr f' \<Rightarrow>
                 Inr (l\<lparr>l_endFrame := endFrame, l_indexInCell := - 1\<rparr>,
                      map_option (\<lambda>n. l_startIndex l + n - 1) numCellValues,
                      AList.update (l_cellNum l) f' (addFeature x e (l_cellNum l) fs))))"

text \<open>The body of the loop of line 75, before \<^verbatim>\<open>indexInCell++\<close> and \<^verbatim>\<open>i++\<close>.\<close>

definition loopBody ::
  "externals \<Rightarrow> env \<Rightarrow> nat \<Rightarrow> nat list \<Rightarrow> int \<Rightarrow> locals \<Rightarrow> features
     \<Rightarrow> error + locals \<times> int option \<times> features" where
  "loopBody x e subLayerIndex subLayerIntArray k l fs =
     (let val = streamGet subLayerIntArray k in
      if l_indexInCell l = CELL_NUM_INDEX then
        Inr (l\<lparr>l_startIndex := k + CELL_VALUES_START_INDEX, l_cellNum := val\<rparr>, Some k, fs)
      else if l_indexInCell l = CELL_START_INDEX then
        Inr (l\<lparr>l_startFrame := map_option (\<lambda>v. int v - tileStartFrame e) val\<rparr>, Some k, fs)
      else if l_indexInCell l = CELL_END_INDEX then
        readCell x e subLayerIndex subLayerIntArray l val fs
      else Inr (l, Some k, fs))"

text \<open>
  The loop of line 75. The code sets \<^verbatim>\<open>i\<close> in its body, to a smaller value when
  \<open>numCellValues\<close> is negative, so the loop need not end: the result is \<open>None\<close> when it
  does not. \<^verbatim>\<open>NaN < length\<close> is false.
\<close>

partial_function (option) streamLoop ::
  "externals \<Rightarrow> env \<Rightarrow> nat \<Rightarrow> nat list \<Rightarrow> int option \<Rightarrow> locals \<Rightarrow> features
     \<Rightarrow> (error + features) option" where
  "streamLoop x e subLayerIndex subLayerIntArray i l fs =
     (case i of
        None \<Rightarrow> Some (Inr fs)
      | Some k \<Rightarrow>
          if k < int (length subLayerIntArray) then
            (case loopBody x e subLayerIndex subLayerIntArray k l fs of
               Inl err \<Rightarrow> Some (Inl err)
             | Inr (l', i', fs') \<Rightarrow>
                 streamLoop x e subLayerIndex subLayerIntArray (map_option (\<lambda>k'. k' + 1) i')
                   (l'\<lparr>l_indexInCell := l_indexInCell l' + 1\<rparr>) fs')
          else Some (Inr fs))"

definition initialLocals :: locals where
  "initialLocals = \<lparr>l_cellNum = Some 0, l_startFrame = Some 0, l_endFrame = Some 0,
                     l_startIndex = 0, l_indexInCell = 0\<rparr>"

text \<open>
  The loop of line 64 over \<^verbatim>\<open>intArrays\<close>, from the index \<open>subLayerIndex\<close> on. When
  \<^verbatim>\<open>intArrays[subLayerIndex]\<close> is \<^verbatim>\<open>undefined\<close>, \<^verbatim>\<open>subLayerIntArray.length\<close> (line 75)
  throws a \<^verbatim>\<open>TypeError\<close>.
\<close>

fun sublayersLoop ::
  "externals \<Rightarrow> env \<Rightarrow> nat \<Rightarrow> nat list option list \<Rightarrow> features \<Rightarrow> (error + features) option" where
  "sublayersLoop x e subLayerIndex [] fs = Some (Inr fs)"
| "sublayersLoop x e subLayerIndex (None # rest) fs = Some (Inl TypeError)"
| "sublayersLoop x e subLayerIndex (Some subLayerIntArray # rest) fs =
     (case streamLoop x e subLayerIndex subLayerIntArray (Some 0) initialLocals fs of
        None \<Rightarrow> None
      | Some (Inl err) \<Rightarrow> Some (Inl err)
      | Some (Inr fs') \<Rightarrow> sublayersLoop x e (Suc subLayerIndex) rest fs')"

text \<open>
  \<^verbatim>\<open>Object.values\<close>: the properties whose key is an array index come first, in ascending
  order of the index, then the others in the order of their creation.
\<close>

definition isArrayIndex :: "nat option \<Rightarrow> bool" where
  "isArrayIndex k = (case k of None \<Rightarrow> False | Some n \<Rightarrow> n < 4294967295)"

definition objectValues :: "(nat option \<times> 'v) list \<Rightarrow> 'v list" where
  "objectValues obj =
     map snd (sort_key (\<lambda>kv. the (fst kv)) (filter (\<lambda>kv. isArrayIndex (fst kv)) obj))
     @ map snd (filter (\<lambda>kv. \<not> isArrayIndex (fst kv)) obj)"

text \<open>Lines 29 to 63: the environment of the loops, or the exception of a missing table entry or tile.\<close>

definition makeEnv :: "externals \<Rightarrow> nat \<Rightarrow> parse_options \<Rightarrow> time_range \<Rightarrow> error + env" where
  "makeEnv x n po tr =
     (case CONFIG_BY_INTERVAL x (opt_interval po) of
        None \<Rightarrow> Inl TypeError
      | Some ic \<Rightarrow>
          let tsf = getIntervalFrame ic (opt_bufferedStartDate po);
              trs = getIntervalFrame ic (range_start tr) - tsf;
              tre = getIntervalFrame ic (range_end tr) - tsf;
              key = getTimeRangeKey x trs tre
          in (case opt_tile po of
               None \<Rightarrow> Inl TypeError
             | Some t \<Rightarrow>
                 Inr \<lparr>sublayers = opt_sublayers po,
                      aggregationOperation = (case opt_aggregationOperation po of None \<Rightarrow> ''sum'' | Some a \<Rightarrow> a),
                      scale = (case opt_scale po of None \<Rightarrow> SCALE_VALUE | Some s \<Rightarrow> s),
                      offset = (case opt_offset po of None \<Rightarrow> OFFSET_VALUE | Some s \<Rightarrow> s),
                      noDataValue = (case opt_noDataValue po of None \<Rightarrow> NO_DATA_VALUE | Some s \<Rightarrow> s),
                      tile = t,
                      cols = opt_cols po,
                      rows = opt_rows po,
                      intervalConfig = ic,
                      tileStartFrame = tsf,
                      timeRangeStartFrame = trs,
                      timeRangeEndFrame = tre,
                      timeRangeKey = key,
                      tileBBox = [west (bbox t), south (bbox t), east (bbox t), north (bbox t)],
                      sublayersLength = n\<rparr>))"

text \<open>\<^verbatim>\<open>options?.fourwings\<close>.\<close>

definition fourwingsOf :: "loader_options option \<Rightarrow> parse_options option" where
  "fourwingsOf opts = (case opts of None \<Rightarrow> None | Some lo \<Rightarrow> fourwings lo)"

definition getCellTimeseries ::
  "externals \<Rightarrow> nat list option list \<Rightarrow> loader_options option \<Rightarrow> (error + feature list) option" where
  "getCellTimeseries x intArrays opts =
     (case fourwingsOf opts of
        None \<Rightarrow> Some (Inr [])
      | Some po \<Rightarrow>
         (case opt_initialTimeRange po of
            None \<Rightarrow> Some (Inr [])
          | Some tr \<Rightarrow>
             (case makeEnv x (length intArrays) po tr of
                Inl err \<Rightarrow> Some (Inl err)
              | Inr e \<Rightarrow>
                 (case sublayersLoop x e 0 intArrays [] of
                    None \<Rightarrow> None
                  | Some (Inl err) \<Rightarrow> Some (Inl err)
                  | Some (Inr fs) \<Rightarrow> Some (Inr (objectValues fs))))))"

section \<open>The buffer splitter\<close>

text \<open>
  \<^verbatim>\<open>buffersLength.map\<close> with its callback (lines 196 to 206) and the variable
  \<^verbatim>\<open>start\<close>: the buffers are read from the first to the last, and an exception of the
  reader ends the whole call. The index of an element is never the length of the list,
  so the slice always ends at \<open>start + length\<close>; \<^verbatim>\<open>slice\<close> stops at the end of the buffer.
\<close>

fun splitBuffers ::
  "externals \<Rightarrow> 8 word list \<Rightarrow> nat \<Rightarrow> nat list \<Rightarrow> error + nat list option list" where
  "splitBuffers x datasetsBuffer start [] = Inr []"
| "splitBuffers x datasetsBuffer start (len # rest) =
     (if len = 0 then
        (case splitBuffers x datasetsBuffer start rest of
           Inl err \<Rightarrow> Inl err
         | Inr intArrays \<Rightarrow> Inr (Some [] # intArrays))
      else
        (case readPackedFields x (take len (drop start datasetsBuffer)) of
           Inl err \<Rightarrow> Inl err
         | Inr intArray \<Rightarrow>
            (case splitBuffers x datasetsBuffer (start + len) rest of
               Inl err \<Rightarrow> Inl err
             | Inr intArrays \<Rightarrow> Inr (intArray # intArrays))))"

text \<open>
  \<^verbatim>\<open>const { buffersLength } = options?.fourwings || {}\<close>, and \<^verbatim>\<open>parseFourwings\<close>: the
  argument of \<^verbatim>\<open>getCellTimeseries\<close> is evaluated before the call, so every buffer is read
  before line 42 tests \<^verbatim>\<open>initialTimeRange\<close>.
\<close>

definition buffersLengthOf :: "loader_options option \<Rightarrow> nat list option" where
  "buffersLengthOf opts = (case fourwingsOf opts of None \<Rightarrow> None | Some po \<Rightarrow> opt_buffersLength po)"

definition parseFourwings ::
  "externals \<Rightarrow> 8 word list \<Rightarrow> loader_options option \<Rightarrow> (error + feature list) option" where
  "parseFourwings x datasetsBuffer opts =
     (case buffersLengthOf opts of
        None \<Rightarrow> Some (Inr [])
      | Some buffersLength \<Rightarrow>
          if length buffersLength = 0 then Some (Inr [])
          else (case splitBuffers x datasetsBuffer 0 buffersLength of
                  Inl err \<Rightarrow> Some (Inl err)
                | Inr intArrays \<Rightarrow> getCellTimeseries x intArrays opts))"


section \<open>Reading the result\<close>

text \<open>\<^verbatim>\<open>f.properties.initialValues[key][subLayerIndex]\<close>, read from a finished feature.\<close>

definition initialValueAt :: "feature \<Rightarrow> string \<Rightarrow> nat \<Rightarrow> jsnum option" where
  "initialValueAt f key subLayerIndex =
     (case initialValues f key of None \<Rightarrow> None | Some iv \<Rightarrow> aprops iv (int subLayerIndex))"

text \<open>The lengths of \<^verbatim>\<open>values[subLayerIndex]\<close> and \<^verbatim>\<open>dates[subLayerIndex]\<close>, where they exist.\<close>

definition denseLengths :: "nat \<Rightarrow> feature \<Rightarrow> nat option \<times> nat option" where
  "denseLengths subLayerIndex f =
     (map_option alength (aprops (values f) (int subLayerIndex)),
      map_option alength (aprops (dates f) (int subLayerIndex)))"

text \<open>
  The aggregate of a sublayer and its counter of samples in range, in the state of the
  loop over the values of a cell.
\<close>

definition aggregateOf :: "env \<Rightarrow> nat \<Rightarrow> feature \<times> jsnum jsarray \<Rightarrow> jsnum option \<times> jsnum option" where
  "aggregateOf e subLayerIndex st =
     (initialValueAt (fst st) (timeRangeKey e) subLayerIndex, aprops (snd st) (int subLayerIndex))"

text \<open>
  The test of the specification for a sample at position \<open>j\<close>, in its words: the
  tile-relative frame \<open>startFrame + floor (j / bandsPerFrame)\<close> lies in the half-open range
  from \<open>timeRangeStartFrame\<close> to \<open>timeRangeEndFrame\<close>.
\<close>

definition specInTimeRange :: "env \<Rightarrow> int \<Rightarrow> nat \<Rightarrow> bool" where
  "specInTimeRange e startFrame j =
     (timeRangeStartFrame e \<le> startFrame + \<lfloor>rat_of_nat j / rat_of_int (sublayers e)\<rfloor>
      \<and> startFrame + \<lfloor>rat_of_nat j / rat_of_int (sublayers e)\<rfloor> < timeRangeEndFrame e)"

section \<open>The grammar of a stream\<close>

text \<open>
  The records of the specification's grammar: a record is a cell index, a start frame, an
  end frame and its values; it is whole when it has \<open>(endFrame - startFrame + 1) *
  bandsPerFrame\<close> values; a stream is the concatenation of its records. A record has a
  sample when one of its values is not the sentinel.
\<close>

type_synonym cell_record = "nat \<times> nat \<times> nat \<times> nat list"

definition encodeRecord :: "cell_record \<Rightarrow> nat list" where
  "encodeRecord r = (case r of (cellIndex, startFrame, endFrame, vs) \<Rightarrow>
                       cellIndex # startFrame # endFrame # vs)"

definition encodeStream :: "cell_record list \<Rightarrow> nat list" where
  "encodeStream rs = concat (map encodeRecord rs)"

definition wholeRecord :: "env \<Rightarrow> cell_record \<Rightarrow> bool" where
  "wholeRecord e r = (case r of (cellIndex, startFrame, endFrame, vs) \<Rightarrow>
                        int (length vs) = (int endFrame - int startFrame + 1) * sublayers e)"

definition hasSample :: "env \<Rightarrow> nat list \<Rightarrow> bool" where
  "hasSample e vs = list_ex (\<lambda>v. int v \<noteq> noDataValue e) vs"

text \<open>A record whose number of values is the length of an array: at most \<open>2^32 - 1\<close>.\<close>

definition validLength :: "cell_record \<Rightarrow> bool" where
  "validLength r = (case r of (cellIndex, startFrame, endFrame, vs) \<Rightarrow>
                      length vs \<le> 4294967295)"

text \<open>
  The numbers at the head of the whole triples of a stream: the cell indices of its
  records when no record has a value.
\<close>

fun recordHeads :: "nat list \<Rightarrow> nat list" where
  "recordHeads (cellIndex # startFrame # endFrame # rest) = cellIndex # recordHeads rest"
| "recordHeads _ = []"

section \<open>Invariants\<close>

text \<open>
  What a step on the sublayer \<open>subLayerIndex\<close> leaves alone in a feature: the geometry,
  the identifiers and the position in the grid, and the entries of every other sublayer
  in \<open>values\<close>, \<open>dates\<close>, \<open>startOffsets\<close> and \<open>initialValues\<close>.
\<close>

definition onlySublayerChanged :: "nat \<Rightarrow> feature \<Rightarrow> feature \<Rightarrow> bool" where
  "onlySublayerChanged subLayerIndex f f' =
     (coordinates f' = coordinates f \<and> col f' = col f \<and> row f' = row f
      \<and> cellId f' = cellId f \<and> cellNum f' = cellNum f
      \<and> (\<forall>s. s \<noteq> int subLayerIndex \<longrightarrow>
             aprops (values f') s = aprops (values f) s
           \<and> aprops (dates f') s = aprops (dates f) s
           \<and> aprops (startOffsets f') s = aprops (startOffsets f) s)
      \<and> (\<forall>key s. s \<noteq> subLayerIndex \<longrightarrow> initialValueAt f' key s = initialValueAt f key s)
      \<and> (\<forall>key. initialValues f key \<noteq> None \<longrightarrow> initialValues f' key \<noteq> None))"

text \<open>
  The features under construction: one property for each key, and under the key \<open>k\<close>
  a feature of the cell \<open>k\<close> with the geometry, the column, the row and the identifier
  that the helpers compute for \<open>k\<close>, with the array of the time range in
  \<open>initialValues\<close>, and with an array of dates for every sublayer that has an array of
  values.
\<close>

definition materialized :: "externals \<Rightarrow> env \<Rightarrow> nat option \<Rightarrow> feature \<Rightarrow> bool" where
  "materialized x e k f =
     (cellNum f = k
      \<and> coordinates f = [getCellCoordinates x k (cols e) (rows e) (tileBBox e)]
      \<and> (col f, row f) = getCellProperties x (tileBBox e) k (cols e)
      \<and> cellId f = generateUniqueId x (tile_x (index (tile e))) (tile_y (index (tile e))) k
      \<and> initialValues f (timeRangeKey e) \<noteq> None
      \<and> (\<forall>s. aprops (values f) s \<noteq> None \<longrightarrow> aprops (dates f) s \<noteq> None))"

text \<open>A feature without an entry for any sublayer in \<open>values\<close>, \<open>dates\<close> and \<open>startOffsets\<close>.\<close>

definition withoutData :: "feature \<Rightarrow> bool" where
  "withoutData f =
     (\<forall>s. aprops (values f) s = None \<and> aprops (dates f) s = None
          \<and> aprops (startOffsets f) s = None)"

definition wellFormed :: "externals \<Rightarrow> env \<Rightarrow> features \<Rightarrow> bool" where
  "wellFormed x e fs =
     (distinct (map fst fs) \<and> (\<forall>k f. map_of fs k = Some f \<longrightarrow> materialized x e k f))"

text \<open>
  A feature in which the array of values and the array of dates of every sublayer are
  both there or both absent, and of the same length when they are there.
\<close>

definition equalLengths :: "feature \<Rightarrow> bool" where
  "equalLengths f =
     (\<forall>s. map_option alength (aprops (values f) s) = map_option alength (aprops (dates f) s))"

text \<open>A feature without values and dates for the sublayers from \<open>subLayerIndex\<close> on.\<close>

definition unwrittenFrom :: "nat \<Rightarrow> feature \<Rightarrow> bool" where
  "unwrittenFrom subLayerIndex f =
     (\<forall>s. int subLayerIndex \<le> s \<longrightarrow> aprops (values f) s = None \<and> aprops (dates f) s = None)"

section \<open>A concrete tile\<close>

text \<open>
  Collaborators and options on which the definitions are run: frames are the instants
  themselves, the timestamp of a frame is a thousand times the frame, the grid has ten
  columns. The reader takes a buffer that starts with the byte \<open>10\<close>, the tag of a
  length-delimited first field, and the byte of its length, and returns the bytes after
  them as the numbers of the field; it returns \<^verbatim>\<open>undefined\<close> for an empty buffer, which
  has no field, and throws a \<^verbatim>\<open>TypeError\<close> on a buffer that starts with another byte.
  \<open>demoOptions b s t\<close> has \<open>b\<close> bands per frame and the time range from \<open>s\<close> to \<open>t\<close>; the
  other options have their defaults.
\<close>

definition demoExternals :: externals where
  "demoExternals =
     \<lparr>CONFIG_BY_INTERVAL = (\<lambda>s. if s = ''DAY''
         then Some \<lparr>getIntervalFrame = (\<lambda>t. t), getIntervalTimestamp = (\<lambda>f. 1000 * f)\<rparr>
         else None),
      getTimeRangeKey = (\<lambda>a b. ''range''),
      getCellProperties = (\<lambda>b c n. case c of None \<Rightarrow> (0, 0) | Some k \<Rightarrow> (int k mod n, int k div n)),
      getCellCoordinates = (\<lambda>c n m b. []),
      generateUniqueId = (\<lambda>tx ty c. case c of None \<Rightarrow> 0 | Some k \<Rightarrow> int k),
      readPackedFields = (\<lambda>bs. case bs of
          [] \<Rightarrow> Inr None
        | tag # rest \<Rightarrow> if tag = 10 then Inr (Some (map unat (drop 1 rest))) else Inl TypeError)\<rparr>"

definition demoParseOptions :: "int \<Rightarrow> int \<Rightarrow> int \<Rightarrow> parse_options" where
  "demoParseOptions b s t =
     \<lparr>opt_bufferedStartDate = 0, opt_interval = ''DAY'', opt_sublayers = b,
      opt_initialTimeRange = Some \<lparr>range_start = s, range_end = t\<rparr>,
      opt_aggregationOperation = None, opt_scale = None, opt_offset = None,
      opt_noDataValue = None,
      opt_tile = Some \<lparr>bbox = \<lparr>west = 0, south = 0, east = 1, north = 1\<rparr>,
                        index = \<lparr>tile_x = 0, tile_y = 0\<rparr>\<rparr>,
      opt_cols = 10, opt_rows = 10, opt_buffersLength = None\<rparr>"

definition demoOptions :: "int \<Rightarrow> int \<Rightarrow> int \<Rightarrow> loader_options option" where
  "demoOptions b s t = Some \<lparr>fourwings = Some (demoParseOptions b s t)\<rparr>"

text \<open>The environment that \<open>makeEnv\<close> builds from \<open>demoParseOptions b s t\<close> for \<open>n\<close> streams.\<close>

definition demoEnv :: "nat \<Rightarrow> int \<Rightarrow> int \<Rightarrow> int \<Rightarrow> env" where
  "demoEnv n b s t =
     \<lparr>sublayers = b, aggregationOperation = ''sum'', scale = 1, offset = 0,
      noDataValue = 4294967295,
      tile = \<lparr>bbox = \<lparr>west = 0, south = 0, east = 1, north = 1\<rparr>,
               index = \<lparr>tile_x = 0, tile_y = 0\<rparr>\<rparr>,
      cols = 10, rows = 10,
      intervalConfig = \<lparr>getIntervalFrame = (\<lambda>t. t), getIntervalTimestamp = (\<lambda>f. 1000 * f)\<rparr>,
      tileStartFrame = 0, timeRangeStartFrame = s, timeRangeEndFrame = t,
      timeRangeKey = ''range'', tileBBox = [0, 0, 1, 1], sublayersLength = n\<rparr>"

text \<open>
  The same with the aggregation \<^verbatim>\<open>'avg'\<close> and the time range of the frames \<open>10\<close> and
  \<open>11\<close>, and the variables of the loop at the third token of the cell \<open>5\<close> whose record
  starts at frame \<open>10\<close>.
\<close>

definition avgEnv :: env where
  "avgEnv = (demoEnv 1 1 10 12)\<lparr>aggregationOperation := ''avg''\<rparr>"

definition avgLocals :: locals where
  "avgLocals = \<lparr>l_cellNum = Some 5, l_startFrame = Some 10, l_endFrame = Some 0,
                  l_startIndex = 3, l_indexInCell = 2\<rparr>"

text \<open>
  The variables of the loop at the third token of a record of the cell \<open>5\<close> that starts at
  the frame \<open>0\<close>, at the beginning of a stream.
\<close>

definition demoLocals :: locals where
  "demoLocals = \<lparr>l_cellNum = Some 5, l_startFrame = Some 0, l_endFrame = Some 0,
                   l_startIndex = 3, l_indexInCell = 2\<rparr>"

text \<open>Options without a time range, and with the lengths of the buffers.\<close>

definition noRangeOptions :: "nat list \<Rightarrow> loader_options option" where
  "noRangeOptions buffersLength =
     Some \<lparr>fourwings = Some ((demoParseOptions 1 0 1)
        \<lparr>opt_initialTimeRange := None, opt_buffersLength := Some buffersLength\<rparr>)\<rparr>"

text \<open>Options with a time range and an empty list of lengths.\<close>

definition noBuffersOptions :: "loader_options option" where
  "noBuffersOptions =
     Some \<lparr>fourwings = Some ((demoParseOptions 1 0 1)\<lparr>opt_buffersLength := Some []\<rparr>)\<rparr>"

text \<open>
  The states that the loop of line 75 goes through on a stream whose first record, with
  the start frame \<open>startFrame\<close>, has \<open>numCellValues = -3\<close>: line 171 sets \<^verbatim>\<open>i\<close> to \<open>-1\<close>
  at the third token, and the loop is back at the first.
\<close>

definition cycling :: "int \<Rightarrow> int option \<Rightarrow> locals \<Rightarrow> bool" where
  "cycling startFrame i l =
     ((i = Some 0 \<and> l_indexInCell l = 0)
      \<or> (i = Some 1 \<and> l_indexInCell l = 1 \<and> l_startIndex l = 3)
      \<or> (i = Some 2 \<and> l_indexInCell l = 2 \<and> l_startIndex l = 3
            \<and> l_startFrame l = Some startFrame))"

section \<open>Evaluation\<close>

lemma cellValuesLoop_numeral:
  "cellValuesLoop e s a sf n si (numeral k) st = cellValuesLoop e s a sf n si (Suc (pred_numeral k)) st"
  by (simp add: numeral_eq_Suc)

lemmas constants_eval =
  NO_DATA_VALUE_def SCALE_VALUE_def OFFSET_VALUE_def CELL_NUM_INDEX_def CELL_START_INDEX_def
  CELL_END_INDEX_def CELL_VALUES_START_INDEX_def

lemmas array_eval =
  arraySet_def emptyArray_def filledArray_def newArray_def streamGet_def toNumber_def

lemmas demo_eval =
  demoExternals_def demoOptions_def demoParseOptions_def demoEnv_def avgEnv_def avgLocals_def demoLocals_def
  noRangeOptions_def noBuffersOptions_def

lemmas cell_eval =
  isNoData_def transformed_def newFeature_def createSublayerProperties_def storeValue_def
  inTimeRange_def sumValue_def addCellValue_def cellValuesLoop_numeral averageValue_def

lemmas decode_eval =
  constants_eval array_eval demo_eval cell_eval numCellValuesOf_def addFeature_def cellFeature_def
  readCellValues_def readCell_def loopBody_def streamLoop.simps
  initialLocals_def isArrayIndex_def objectValues_def makeEnv_def fourwingsOf_def
  getCellTimeseries_def buffersLengthOf_def parseFourwings_def Let_def

lemma makeEnv_demo:
  "makeEnv demoExternals n (demoParseOptions b s t) \<lparr>range_start = s, range_end = t\<rparr>
     = Inr (demoEnv n b s t)"
  by (simp add: makeEnv_def demo_eval constants_eval)

section \<open>Arrays\<close>

lemma aprops_arraySet [simp]:
  "aprops (arraySet a k v) k' = (if k' = k then Some v else aprops a k')"
  by (simp add: arraySet_def)

lemma alength_arraySet:
  "alength (arraySet a k v)
     = (if 0 \<le> k \<and> k < 4294967295 \<and> alength a \<le> nat k then nat k + 1 else alength a)"
  by (simp add: arraySet_def)

lemma aprops_emptyArray [simp]: "aprops (emptyArray n) k = None"
  by (simp add: emptyArray_def)

lemma alength_emptyArray [simp]: "alength (emptyArray n) = n"
  by (simp add: emptyArray_def)

section \<open>Steps on one feature\<close>

lemma cellValuesLoop_Suc_Inr:
  assumes "cellValuesLoop e s a sf n si (Suc m) st = Inr st2"
  shows "\<exists>st1. cellValuesLoop e s a sf n si m st = Inr st1
               \<and> addCellValue e s a sf n si m st1 = Inr st2"
  using assms by (auto split: sum.splits)

lemma addCellValue_noData:
  "isNoData e (streamGet a (int j + si)) \<Longrightarrow> addCellValue e s a sf n si j st = Inr st"
  by (simp add: addCellValue_def split: prod.splits)

lemma onlySublayerChanged_refl: "onlySublayerChanged s f f"
  by (simp add: onlySublayerChanged_def)

lemma onlySublayerChanged_trans:
  "onlySublayerChanged s f g \<Longrightarrow> onlySublayerChanged s g h \<Longrightarrow> onlySublayerChanged s f h"
  by (simp add: onlySublayerChanged_def)

lemma addCellValue_frame:
  assumes "addCellValue e s a sf n si j (f, c) = Inr (f', c')"
  shows "onlySublayerChanged s f f'"
  using assms
  by (auto simp add: addCellValue_def storeValue_def sumValue_def createSublayerProperties_def
        onlySublayerChanged_def initialValueAt_def Let_def
        split: sum.splits option.splits if_splits)

lemma cellValuesLoop_frame:
  assumes "cellValuesLoop e s a sf n si m (f, c) = Inr (f', c')"
  shows "onlySublayerChanged s f f'"
  using assms
proof (induction m arbitrary: f' c')
  case 0
  then show ?case by (simp add: onlySublayerChanged_refl)
next
  case (Suc m)
  from cellValuesLoop_Suc_Inr [OF Suc.prems] obtain f1 c1 where
    l: "cellValuesLoop e s a sf n si m (f, c) = Inr (f1, c1)"
    and a: "addCellValue e s a sf n si m (f1, c1) = Inr (f', c')" by auto
  from Suc.IH [OF l] addCellValue_frame [OF a] show ?case
    by (rule onlySublayerChanged_trans)
qed

lemma readCellValues_frame:
  assumes "readCellValues e s a sf si n (f, c) = Inr (f', c')"
  shows "onlySublayerChanged s f f'"
  using assms
  by (auto simp add: readCellValues_def onlySublayerChanged_refl cellValuesLoop_frame
        split: option.splits)

lemma averageValue_frame:
  assumes "averageValue e s (f, c) = Inr f'"
  shows "onlySublayerChanged s f f'"
  using assms
  by (auto simp add: averageValue_def onlySublayerChanged_def initialValueAt_def
        split: if_splits option.splits)

lemma materialized_newFeature: "materialized x e k (newFeature x e k)"
  by (simp add: materialized_def newFeature_def split: prod.splits)

lemma addCellValue_materialized:
  assumes "materialized x e k f" and "addCellValue e s a sf n si j (f, c) = Inr (f', c')"
  shows "materialized x e k f'"
  using assms
  by (auto simp add: addCellValue_def storeValue_def sumValue_def createSublayerProperties_def
        materialized_def Let_def
        split: sum.splits option.splits if_splits)

lemma cellValuesLoop_materialized:
  assumes "materialized x e k f" and "cellValuesLoop e s a sf n si m (f, c) = Inr (f', c')"
  shows "materialized x e k f'"
  using assms(2)
proof (induction m arbitrary: f' c')
  case 0
  with assms(1) show ?case by simp
next
  case (Suc m)
  from cellValuesLoop_Suc_Inr [OF Suc.prems] obtain f1 c1 where
    l: "cellValuesLoop e s a sf n si m (f, c) = Inr (f1, c1)"
    and a: "addCellValue e s a sf n si m (f1, c1) = Inr (f', c')" by auto
  from Suc.IH [OF l] a show ?case by (rule addCellValue_materialized)
qed

lemma readCellValues_materialized:
  assumes "materialized x e k f" and "readCellValues e s a sf si n (f, c) = Inr (f', c')"
  shows "materialized x e k f'"
  using assms
  by (auto simp add: readCellValues_def cellValuesLoop_materialized split: option.splits)

lemma averageValue_materialized:
  assumes "materialized x e k f" and "averageValue e s (f, c) = Inr f'"
  shows "materialized x e k f'"
  using assms
  by (auto simp add: averageValue_def materialized_def split: if_splits option.splits)

section \<open>Steps on the features\<close>

lemma readCell_result:
  assumes "readCell x e s a l val fs = Inr (l', i', fs')"
  shows "\<exists>f'. onlySublayerChanged s (cellFeature x e (l_cellNum l) fs) f'
            \<and> (\<forall>k. materialized x e k (cellFeature x e (l_cellNum l) fs) \<longrightarrow> materialized x e k f')
            \<and> fs' = AList.update (l_cellNum l) f' (addFeature x e (l_cellNum l) fs)
            \<and> l' = l\<lparr>l_endFrame := map_option (\<lambda>v. int v - tileStartFrame e) val,
                       l_indexInCell := - 1\<rparr>
            \<and> i' = map_option (\<lambda>n. l_startIndex l + n - 1)
                     (numCellValuesOf e (l_startFrame l)
                        (map_option (\<lambda>v. int v - tileStartFrame e) val))"
proof -
  from assms obtain f1 c1 f' where
    r: "readCellValues e s a (l_startFrame l) (l_startIndex l)
          (numCellValuesOf e (l_startFrame l) (map_option (\<lambda>v. int v - tileStartFrame e) val))
          (cellFeature x e (l_cellNum l) fs, filledArray (sublayersLength e) (Fin 0)) = Inr (f1, c1)"
    and a: "averageValue e s (f1, c1) = Inr f'"
    and u: "fs' = AList.update (l_cellNum l) f' (addFeature x e (l_cellNum l) fs)"
    and l': "l' = l\<lparr>l_endFrame := map_option (\<lambda>v. int v - tileStartFrame e) val,
                      l_indexInCell := - 1\<rparr>"
    and i': "i' = map_option (\<lambda>n. l_startIndex l + n - 1)
                    (numCellValuesOf e (l_startFrame l)
                       (map_option (\<lambda>v. int v - tileStartFrame e) val))"
    by (auto simp add: readCell_def Let_def split: sum.splits)
  from readCellValues_frame [OF r] averageValue_frame [OF a]
  have "onlySublayerChanged s (cellFeature x e (l_cellNum l) fs) f'"
    by (rule onlySublayerChanged_trans)
  moreover have "materialized x e k f'"
    if "materialized x e k (cellFeature x e (l_cellNum l) fs)" for k
    using averageValue_materialized [OF readCellValues_materialized [OF that r] a] .
  ultimately show ?thesis using u l' i' by blast
qed

lemma map_of_addFeature:
  "map_of (addFeature x e k fs) k = Some (cellFeature x e k fs)"
  by (simp add: addFeature_def cellFeature_def map_add_def split: option.splits)

lemma map_of_addFeature_other:
  "k' \<noteq> k \<Longrightarrow> map_of (addFeature x e k fs) k' = map_of fs k'"
  by (simp add: addFeature_def map_add_def split: option.splits)

lemma keys_addFeature:
  "map fst (addFeature x e k fs) = (if k \<in> fst ` set fs then map fst fs else map fst fs @ [k])"
proof (cases "map_of fs k")
  case None
  then have "k \<notin> fst ` set fs" by (simp add: map_of_eq_None_iff)
  with None show ?thesis by (simp add: addFeature_def)
next
  case (Some f)
  then have "(k, f) \<in> set fs" by (rule map_of_SomeD)
  then have "k \<in> fst ` set fs" by force
  with Some show ?thesis by (simp add: addFeature_def)
qed

lemma readCell_wellFormed:
  assumes "wellFormed x e fs" and "readCell x e s a l val fs = Inr (l', i', fs')"
  shows "wellFormed x e fs'"
proof -
  let ?k = "l_cellNum l"
  from readCell_result [OF assms(2)] obtain f' where
    ch: "\<And>k. materialized x e k (cellFeature x e ?k fs) \<Longrightarrow> materialized x e k f'"
    and fs': "fs' = AList.update ?k f' (addFeature x e ?k fs)" by blast
  from assms(1) have d: "distinct (map fst fs)"
    and m: "\<And>k f. map_of fs k = Some f \<Longrightarrow> materialized x e k f"
    by (auto simp add: wellFormed_def)
  have "distinct (map fst (addFeature x e ?k fs))"
    using d by (simp add: keys_addFeature)
  then have d': "distinct (map fst fs')"
    unfolding fs' by (rule distinct_update)
  have "materialized x e ?k (cellFeature x e ?k fs)"
    using m [of ?k] by (auto simp add: cellFeature_def materialized_newFeature split: option.splits)
  then have mk: "materialized x e ?k f'" by (rule ch)
  have "materialized x e k f" if "map_of fs' k = Some f" for k f
  proof (cases "k = ?k")
    case True
    with that fs' have "f = f'" by (simp add: update_conv')
    with mk True show ?thesis by simp
  next
    case False
    with that fs' have "map_of fs k = Some f"
      by (simp add: update_conv' map_of_addFeature_other)
    then show ?thesis by (rule m)
  qed
  with d' show ?thesis by (simp add: wellFormed_def)
qed

lemma loopBody_wellFormed:
  assumes "wellFormed x e fs" and "loopBody x e s a k l fs = Inr (l', i', fs')"
  shows "wellFormed x e fs'"
  using assms
  by (auto simp add: loopBody_def Let_def readCell_wellFormed split: if_splits)

section \<open>The loops\<close>

lemmas streamLoop_raw =
  streamLoop.raw_induct [where xa = "((((((x, e), s), a), i), l), fs)", unfolded prod.case]
  for x e s a i l fs

lemma streamLoop_invariant:
  assumes run: "streamLoop x e s a i l fs = Some (Inr fs')"
    and init: "P fs"
    and step: "\<And>k l fs l' i' fs'. P fs \<Longrightarrow> loopBody x e s a k l fs = Inr (l', i', fs') \<Longrightarrow> P fs'"
  shows "P fs'"
proof -
  let ?Q = "\<lambda>x' e' s' a' (i :: int option) (l :: locals) fs (y :: error + features).
              x' = x \<and> e' = e \<and> s' = s \<and> a' = a \<longrightarrow> P fs \<longrightarrow> (\<forall>fs'. y = Inr fs' \<longrightarrow> P fs')"
  have inner: "?Q x' e' s' a' i l fs y"
    if ih: "\<And>x' e' s' a' i l fs y. loop x' e' s' a' i l fs = Some y \<Longrightarrow> ?Q x' e' s' a' i l fs y"
      and body: "(case i of None \<Rightarrow> Some (Inr fs)
                  | Some k \<Rightarrow>
                     if k < int (length a')
                     then case loopBody x' e' s' a' k l fs of
                            Inl err \<Rightarrow> Some (Inl err)
                          | Inr (l', i', fs') \<Rightarrow>
                              loop x' e' s' a' (map_option (\<lambda>k'. k' + 1) i')
                                (l'\<lparr>l_indexInCell := l_indexInCell l' + 1\<rparr>) fs'
                     else Some (Inr fs)) = Some y"
    for loop x' e' s' a' i l fs y
    proof (intro impI allI)
      fix fs'
      assume eq: "x' = x \<and> e' = e \<and> s' = s \<and> a' = a" and p: "P fs" and y: "y = Inr fs'"
      show "P fs'"
      proof (cases i)
        case None
        with body y p show ?thesis by simp
      next
        case (Some k)
        show ?thesis
        proof (cases "k < int (length a')")
          case False
          with Some body y p show ?thesis by simp
        next
          case True
          show ?thesis
          proof (cases "loopBody x' e' s' a' k l fs")
            case (Inl err)
            with Some True body y show ?thesis by simp
          next
            case (Inr r)
            obtain l1 i1 fs1 where r: "r = (l1, i1, fs1)" by (cases r) auto
            from Some True body Inr r have
              rec: "loop x' e' s' a' (map_option (\<lambda>k'. k' + 1) i1)
                      (l1\<lparr>l_indexInCell := l_indexInCell l1 + 1\<rparr>) fs1 = Some y"
              by simp
            from Inr r eq have "loopBody x e s a k l fs = Inr (l1, i1, fs1)" by simp
            with p have "P fs1" by (rule step)
            with ih [OF rec] eq y show ?thesis by blast
          qed
        qed
      qed
    qed
  have "?Q x e s a i l fs (Inr fs')"
    by (rule streamLoop_raw [where P = ?Q, OF inner run])
  with init show ?thesis by blast
qed

lemma streamLoop_wellFormed:
  assumes "streamLoop x e s a i l fs = Some (Inr fs')" and "wellFormed x e fs"
  shows "wellFormed x e fs'"
  using assms(1,2)
proof (rule streamLoop_invariant)
  fix k l fs l' i' fs'
  assume "wellFormed x e fs" "loopBody x e s a k l fs = Inr (l', i', fs')"
  then show "wellFormed x e fs'" by (rule loopBody_wellFormed)
qed

lemma sublayersLoop_invariant:
  assumes "sublayersLoop x e s arrs fs = Some (Inr fs')"
    and "P fs"
    and "\<And>s a k l fs l' i' fs'. P fs \<Longrightarrow> loopBody x e s a k l fs = Inr (l', i', fs') \<Longrightarrow> P fs'"
  shows "P fs'"
  using assms(1,2)
proof (induction arrs arbitrary: s fs)
  case Nil
  then show ?case by simp
next
  case (Cons oa arrs)
  from Cons.prems(1) obtain a fs1 where
    r: "streamLoop x e s a (Some 0) initialLocals fs = Some (Inr fs1)"
    and rest: "sublayersLoop x e (Suc s) arrs fs1 = Some (Inr fs')"
    by (cases oa) (auto split: option.splits sum.splits)
  from r Cons.prems(2) have "P fs1"
    by (rule streamLoop_invariant) (rule assms(3))
  with rest show ?case by (rule Cons.IH)
qed

lemma readCell_keys:
  assumes "readCell x e s a l val fs = Inr (l', i', fs')"
  shows "map fst fs' = (if l_cellNum l \<in> fst ` set fs then map fst fs else map fst fs @ [l_cellNum l])"
proof -
  let ?k = "l_cellNum l"
  from readCell_result [OF assms] obtain f' where
    fs': "fs' = AList.update ?k f' (addFeature x e ?k fs)" by blast
  have "?k \<in> set (map fst (addFeature x e ?k fs))"
    by (simp add: keys_addFeature)
  then have "map fst fs' = map fst (addFeature x e ?k fs)"
    unfolding fs' by (simp only: update_keys if_True)
  then show ?thesis by (simp only: keys_addFeature)
qed

lemma readCell_other:
  assumes "readCell x e s a l val fs = Inr (l', i', fs')" and "k \<noteq> l_cellNum l"
  shows "map_of fs' k = map_of fs k"
proof -
  from readCell_result [OF assms(1)] obtain f' where
    fs': "fs' = AList.update (l_cellNum l) f' (addFeature x e (l_cellNum l) fs)" by blast
  with assms(2) show ?thesis
    by (simp add: update_conv' map_of_addFeature_other)
qed

lemma readCell_feature:
  assumes "readCell x e s a l val fs = Inr (l', i', fs')"
  shows "\<exists>f'. map_of fs' (l_cellNum l) = Some f'
            \<and> onlySublayerChanged s (cellFeature x e (l_cellNum l) fs) f'"
proof -
  from readCell_result [OF assms(1)] obtain f' where
    "onlySublayerChanged s (cellFeature x e (l_cellNum l) fs) f'"
    and "fs' = AList.update (l_cellNum l) f' (addFeature x e (l_cellNum l) fs)" by blast
  then show ?thesis by (simp add: update_conv')
qed

lemma wellFormed_Nil: "wellFormed x e []"
  by (simp add: wellFormed_def)

lemma sublayersLoop_wellFormed:
  assumes "sublayersLoop x e s arrs fs = Some (Inr fs')" and "wellFormed x e fs"
  shows "wellFormed x e fs'"
  using assms
proof (rule sublayersLoop_invariant)
  fix s a k l fs l' i' fs'
  assume "wellFormed x e fs" "loopBody x e s a k l fs = Inr (l', i', fs')"
  then show "wellFormed x e fs'" by (rule loopBody_wellFormed)
qed

section \<open>The returned sequence\<close>

lemma set_objectValues: "set (objectValues fs) = snd ` set fs"
  by (auto simp add: objectValues_def)

lemma wellFormed_member:
  assumes "wellFormed x e fs" and "kf \<in> set fs"
  shows "materialized x e (fst kf) (snd kf)"
proof -
  from assms(1) have d: "distinct (map fst fs)" by (simp add: wellFormed_def)
  from assms(2) have "(fst kf, snd kf) \<in> set fs" by simp
  with d have "map_of fs (fst kf) = Some (snd kf)" by (rule map_of_is_SomeI)
  with assms(1) show ?thesis by (simp add: wellFormed_def)
qed

lemma wellFormed_cellNum:
  assumes "wellFormed x e fs" and "set ys \<subseteq> set fs"
  shows "map (\<lambda>kf. cellNum (snd kf)) ys = map fst ys"
proof (rule map_cong [OF refl])
  fix kf assume "kf \<in> set ys"
  with assms(2) have "kf \<in> set fs" by blast
  with assms(1) have "materialized x e (fst kf) (snd kf)" by (rule wellFormed_member)
  then show "cellNum (snd kf) = fst kf" by (simp add: materialized_def)
qed

lemma objectValues_order:
  assumes wf: "wellFormed x e fs"
  shows "filter (\<lambda>f. isArrayIndex (cellNum f)) (objectValues fs)
           = map snd (sort_key (\<lambda>kv. the (fst kv)) (filter (\<lambda>kv. isArrayIndex (fst kv)) fs))"
    and "filter (\<lambda>f. \<not> isArrayIndex (cellNum f)) (objectValues fs)
           = map snd (filter (\<lambda>kv. \<not> isArrayIndex (fst kv)) fs)"
proof -
  let ?A = "sort_key (\<lambda>kv. the (fst kv)) (filter (\<lambda>kv. isArrayIndex (fst kv)) fs)"
  let ?B = "filter (\<lambda>kv. \<not> isArrayIndex (fst kv)) fs"
  have c: "cellNum (snd kf) = fst kf" if "kf \<in> set fs" for kf
    using wellFormed_member [OF wf that] by (simp add: materialized_def)
  have A: "\<forall>kf \<in> set ?A. isArrayIndex (cellNum (snd kf))" using c by auto
  have B: "\<forall>kf \<in> set ?B. \<not> isArrayIndex (cellNum (snd kf))" using c by auto
  have ov: "objectValues fs = map snd ?A @ map snd ?B" by (simp add: objectValues_def)
  from A have A1: "filter (\<lambda>kf. isArrayIndex (cellNum (snd kf))) ?A = ?A"
    by (simp only: filter_id_conv)
  from B have B1: "filter (\<lambda>kf. isArrayIndex (cellNum (snd kf))) ?B = []"
    by (simp only: filter_empty_conv)
  from A have A2: "filter (\<lambda>kf. \<not> isArrayIndex (cellNum (snd kf))) ?A = []"
    by (simp only: filter_empty_conv not_not)
  from B have B2: "filter (\<lambda>kf. \<not> isArrayIndex (cellNum (snd kf))) ?B = ?B"
    by (simp only: filter_id_conv)
  show "filter (\<lambda>f. isArrayIndex (cellNum f)) (objectValues fs) = map snd ?A"
    unfolding ov filter_append filter_map comp_def A1 B1 by simp
  show "filter (\<lambda>f. \<not> isArrayIndex (cellNum f)) (objectValues fs) = map snd ?B"
    unfolding ov filter_append filter_map comp_def A2 B2 by simp
qed

lemma objectValues_sorted:
  assumes wf: "wellFormed x e fs"
  shows "sorted_wrt (<) (map (\<lambda>f. the (cellNum f))
           (filter (\<lambda>f. isArrayIndex (cellNum f)) (objectValues fs)))"
proof -
  let ?I = "filter (\<lambda>kv. isArrayIndex (fst kv)) fs"
  let ?A = "sort_key (\<lambda>kv. the (fst kv)) ?I"
  have sub: "set ?A \<subseteq> set fs" by auto
  have "map (\<lambda>f. the (cellNum f)) (map snd ?A) = map (\<lambda>kf. the (cellNum (snd kf))) ?A"
    by (simp add: comp_def)
  also have "\<dots> = map the (map (\<lambda>kf. cellNum (snd kf)) ?A)" by (simp add: comp_def)
  also have "\<dots> = map the (map fst ?A)" by (simp only: wellFormed_cellNum [OF wf sub])
  also have "\<dots> = map (\<lambda>kv. the (fst kv)) ?A" by (simp add: comp_def)
  finally have eq: "map (\<lambda>f. the (cellNum f)) (map snd ?A) = map (\<lambda>kv. the (fst kv)) ?A" .
  have s: "sorted (map (\<lambda>kv. the (fst kv)) ?A)" by (rule sorted_sort_key)
  from wf have "distinct (map fst fs)" by (simp add: wellFormed_def)
  then have dI: "distinct (map fst ?I)" by (rule distinct_map_filter)
  have inj: "inj_on the (set (map fst ?I))"
    by (rule inj_onI) (auto simp add: isArrayIndex_def split: option.splits)
  from dI inj have "distinct (map the (map fst ?I))"
    by (simp only: distinct_map)
  then have dk: "distinct (map (\<lambda>kv. the (fst kv)) ?I)" by (simp add: comp_def)
  from dk have "distinct ?I \<and> inj_on (\<lambda>kv. the (fst kv)) (set ?I)"
    by (simp only: distinct_map)
  then have "distinct (map (\<lambda>kv. the (fst kv)) ?A)"
    by (simp add: distinct_map)
  with s have "sorted_wrt (<) (map (\<lambda>kv. the (fst kv)) ?A)"
    by (simp add: strict_sorted_iff)
  with eq show ?thesis
    by (simp only: objectValues_order(1) [OF wf])
qed

lemma objectValues_distinct:
  assumes wf: "wellFormed x e fs"
  shows "distinct (map cellNum (objectValues fs))"
proof -
  let ?A = "sort_key (\<lambda>kv. the (fst kv)) (filter (\<lambda>kv. isArrayIndex (fst kv)) fs)"
  let ?B = "filter (\<lambda>kv. \<not> isArrayIndex (fst kv)) fs"
  have subA: "set ?A \<subseteq> set fs" and subB: "set ?B \<subseteq> set fs" by auto
  have "map cellNum (objectValues fs)
          = map (\<lambda>kf. cellNum (snd kf)) ?A @ map (\<lambda>kf. cellNum (snd kf)) ?B"
    by (simp add: objectValues_def comp_def)
  also have "\<dots> = map fst ?A @ map fst ?B"
    by (simp only: wellFormed_cellNum [OF wf subA] wellFormed_cellNum [OF wf subB])
  finally have eq: "map cellNum (objectValues fs) = map fst ?A @ map fst ?B" .
  from wf have d: "distinct (map fst fs)" by (simp add: wellFormed_def)
  then have "distinct fs" and inj: "inj_on fst (set fs)" by (simp_all add: distinct_map)
  then have "distinct ?A" and "distinct ?B" by simp_all
  moreover from inj subA have "inj_on fst (set ?A)" by (rule inj_on_subset)
  moreover from inj subB have "inj_on fst (set ?B)" by (rule inj_on_subset)
  ultimately have "distinct (map fst ?A)" and "distinct (map fst ?B)"
    by (simp_all only: distinct_map)
  moreover have "set (map fst ?A) \<inter> set (map fst ?B) = {}" by auto
  ultimately show ?thesis unfolding eq by simp
qed

lemma getCellTimeseries_result:
  assumes "getCellTimeseries x intArrays opts = Some (Inr out)"
  shows "out = [] \<or> (\<exists>po tr e fs. fourwingsOf opts = Some po \<and> opt_initialTimeRange po = Some tr
            \<and> makeEnv x (length intArrays) po tr = Inr e
            \<and> sublayersLoop x e 0 intArrays [] = Some (Inr fs) \<and> wellFormed x e fs
            \<and> out = objectValues fs)"
proof (cases "fourwingsOf opts")
  case None
  with assms show ?thesis by (simp add: getCellTimeseries_def)
next
  case (Some po)
  show ?thesis
  proof (cases "opt_initialTimeRange po")
    case None
    with Some assms show ?thesis by (simp add: getCellTimeseries_def)
  next
    case tr: (Some tr)
    from assms Some tr obtain e fs where
      e: "makeEnv x (length intArrays) po tr = Inr e"
      and l: "sublayersLoop x e 0 intArrays [] = Some (Inr fs)"
      and o: "out = objectValues fs"
      by (auto simp add: getCellTimeseries_def split: sum.splits option.splits)
    from l wellFormed_Nil have "wellFormed x e fs" by (rule sublayersLoop_wellFormed)
    with Some tr e l o show ?thesis by blast
  qed
qed

section \<open>Records without samples, streams that end\<close>

lemma cellValuesLoop_all_noData:
  assumes "\<forall>j<m. isNoData e (streamGet a (int j + si))"
  shows "cellValuesLoop e s a sf n si m st = Inr st"
  using assms by (induction m) (simp_all add: addCellValue_noData)

lemma readCellValues_all_noData:
  assumes "\<forall>n j. numCellValues = Some n \<and> int j < n \<longrightarrow> isNoData e (streamGet a (int j + si))"
  shows "readCellValues e s a sf si numCellValues st = Inr st"
proof (cases numCellValues)
  case None
  then show ?thesis by (simp add: readCellValues_def)
next
  case (Some n)
  with assms have "\<forall>j<nat n. isNoData e (streamGet a (int j + si))" by auto
  then show ?thesis
    by (simp add: readCellValues_def Some cellValuesLoop_all_noData split: option.splits)
qed

lemma averageValue_arrays:
  assumes "averageValue e s (f, c) = Inr f'"
  shows "values f' = values f \<and> dates f' = dates f \<and> startOffsets f' = startOffsets f"
  using assms by (auto simp add: averageValue_def split: if_splits option.splits)

lemma withoutData_newFeature: "withoutData (newFeature x e k)"
  by (simp add: withoutData_def newFeature_def split: prod.splits)

lemma loopBody_cases:
  assumes "loopBody x e s a j l fs = Inr (l', i', fs')"
  shows "fs' = fs \<or> readCell x e s a l (streamGet a j) fs = Inr (l', i', fs')"
  using assms by (auto simp add: loopBody_def Let_def split: if_splits)




lemma averageValue_no_error:
  assumes "initialValues f (timeRangeKey e) \<noteq> None"
  shows "\<exists>f'. averageValue e s (f, c) = Inr f'"
  using assms by (auto simp add: averageValue_def)

lemma cellFeature_materialized:
  assumes "wellFormed x e fs"
  shows "materialized x e k (cellFeature x e k fs)"
  using assms
  by (auto simp add: cellFeature_def wellFormed_def materialized_newFeature split: option.splits)

lemma cellFeature_withoutData:
  assumes "\<forall>k f. map_of fs k = Some f \<longrightarrow> withoutData f"
  shows "withoutData (cellFeature x e k fs)"
  using assms
  by (auto simp add: cellFeature_def withoutData_newFeature split: option.splits)

lemma readCell_without_samples:
  assumes wf: "wellFormed x e fs"
    and nd: "\<forall>n j. numCellValuesOf e (l_startFrame l) (map_option (\<lambda>v. int v - tileStartFrame e) val)
                     = Some n \<and> int j < n
                   \<longrightarrow> isNoData e (streamGet a (int j + l_startIndex l))"
  shows "\<exists>f'. readCell x e s a l val fs
                 = Inr (l\<lparr>l_endFrame := map_option (\<lambda>v. int v - tileStartFrame e) val,
                          l_indexInCell := - 1\<rparr>,
                        map_option (\<lambda>n. l_startIndex l + n - 1)
                          (numCellValuesOf e (l_startFrame l)
                             (map_option (\<lambda>v. int v - tileStartFrame e) val)),
                        AList.update (l_cellNum l) f' (addFeature x e (l_cellNum l) fs))
            \<and> values f' = values (cellFeature x e (l_cellNum l) fs)
            \<and> dates f' = dates (cellFeature x e (l_cellNum l) fs)
            \<and> startOffsets f' = startOffsets (cellFeature x e (l_cellNum l) fs)"
proof -
  let ?f0 = "cellFeature x e (l_cellNum l) fs"
  let ?c0 = "filledArray (sublayersLength e) (Fin 0) :: jsnum jsarray"
  from nd have rv: "readCellValues e s a (l_startFrame l) (l_startIndex l)
          (numCellValuesOf e (l_startFrame l) (map_option (\<lambda>v. int v - tileStartFrame e) val))
          (?f0, ?c0) = Inr (?f0, ?c0)"
    by (intro readCellValues_all_noData) blast
  from cellFeature_materialized [OF wf, of "l_cellNum l"]
  have "initialValues ?f0 (timeRangeKey e) \<noteq> None" by (simp add: materialized_def)
  from averageValue_no_error [OF this] obtain f' where
    av: "averageValue e s (?f0, ?c0) = Inr f'" by blast
  from rv av have "readCell x e s a l val fs
                 = Inr (l\<lparr>l_endFrame := map_option (\<lambda>v. int v - tileStartFrame e) val,
                          l_indexInCell := - 1\<rparr>,
                        map_option (\<lambda>n. l_startIndex l + n - 1)
                          (numCellValuesOf e (l_startFrame l)
                             (map_option (\<lambda>v. int v - tileStartFrame e) val)),
                        AList.update (l_cellNum l) f' (addFeature x e (l_cellNum l) fs))"
    by (simp add: readCell_def Let_def)
  with averageValue_arrays [OF av] show ?thesis by blast
qed

lemma streamLoop_end:
  "\<not> k < int (length a) \<Longrightarrow> streamLoop x e s a (Some k) l fs = Some (Inr fs)"
  by (subst streamLoop.simps) simp

lemma streamLoop_NaN: "streamLoop x e s a None l fs = Some (Inr fs)"
  by (subst streamLoop.simps) simp

lemma streamLoop_step:
  assumes "k < int (length a)" and "loopBody x e s a k l fs = Inr (l', i', fs')"
  shows "streamLoop x e s a (Some k) l fs
           = streamLoop x e s a (map_option (\<lambda>k'. k' + 1) i')
               (l'\<lparr>l_indexInCell := l_indexInCell l' + 1\<rparr>) fs'"
  using assms by (subst streamLoop.simps) simp

lemma addCellValue_no_error:
  assumes "materialized x e k f" and "0 \<le> n" and "n \<le> 4294967295"
  shows "\<exists>f' c'. addCellValue e s a sf n si j (f, c) = Inr (f', c')"
  using assms
  by (auto simp add: addCellValue_def storeValue_def sumValue_def createSublayerProperties_def
        materialized_def newArray_def Let_def
        split: sum.splits option.splits if_splits)

lemma cellValuesLoop_no_error:
  assumes "materialized x e k f" and "0 \<le> n" and "n \<le> 4294967295"
  shows "\<exists>f' c'. cellValuesLoop e s a sf n si m (f, c) = Inr (f', c')"
proof (induction m)
  case 0
  then show ?case by simp
next
  case (Suc m)
  then obtain f1 c1 where l: "cellValuesLoop e s a sf n si m (f, c) = Inr (f1, c1)" by blast
  from assms(1) l have "materialized x e k f1" by (rule cellValuesLoop_materialized)
  from addCellValue_no_error [OF this assms(2,3)] l show ?case by simp
qed

lemma addCellValue_stores:
  assumes "\<not> isNoData e (streamGet a (int j + si))"
    and "addCellValue e s a sf n si j (f, c) = Inr (f', c')"
  shows "\<exists>va. aprops (values f') (int s) = Some va
           \<and> aprops va (int j div sublayers e) = Some (transformed e (streamGet a (int j + si)))"
  using assms
  by (auto simp add: addCellValue_def storeValue_def sumValue_def createSublayerProperties_def
        Let_def split: sum.splits option.splits if_splits)

lemma read_past_the_end:
  assumes "int (length a) \<le> k"
  shows "streamGet a k = None" and "\<not> isNoData e (streamGet a k)"
    and "transformed e (streamGet a k) = NaN"
  using assms by (simp_all add: streamGet_def isNoData_def transformed_def)

lemma objectValues_single: "objectValues [(k, f)] = [f]"
  by (simp add: objectValues_def)

section \<open>Walking a stream\<close>

text \<open>
  From the first token of a record, three rounds of the loop of line 75 read the head of
  the record and run its step; the loop then continues at the position that line 171
  gives. Fewer than three tokens at the end of a stream are read without a step.
\<close>

lemma drop_streamGet:
  assumes "drop k a = ys @ zs" and "j < length ys"
  shows "streamGet a (int k + int j) = Some (ys ! j)"
proof -
  from assms have "length (drop k a) = length ys + length zs" by simp
  with assms(2) have lt: "k + j < length a" by simp
  then have "a ! (k + j) = drop k a ! j" by simp
  also have "\<dots> = ys ! j" using assms by (simp add: nth_append)
  finally have "a ! (k + j) = ys ! j" .
  moreover have "nat (int k + int j) = k + j" by simp
  ultimately show ?thesis using lt by (simp add: streamGet_def nat_add_distrib)
qed

lemma streamLoop_unfold:
  assumes "k < int (length a)"
  shows "streamLoop x e s a (Some k) l fs
           = (case loopBody x e s a k l fs of
                Inl err \<Rightarrow> Some (Inl err)
              | Inr (l', i', fs') \<Rightarrow>
                  streamLoop x e s a (map_option (\<lambda>k'. k' + 1) i')
                    (l'\<lparr>l_indexInCell := l_indexInCell l' + 1\<rparr>) fs')"
  using assms by (subst streamLoop.simps) simp

lemma streamLoop_header:
  assumes d: "drop k a = c # s # en # rest" and idx: "l_indexInCell l = 0"
  shows "\<exists>h. l_cellNum h = Some c \<and> l_startFrame h = Some (int s - tileStartFrame e)
             \<and> l_startIndex h = int k + 3 \<and> l_indexInCell h = 2
             \<and> streamLoop x e sub a (Some (int k)) l fs
                 = (case readCell x e sub a h (Some en) fs of
                      Inl err \<Rightarrow> Some (Inl err)
                    | Inr (l', i', fs') \<Rightarrow>
                        streamLoop x e sub a (map_option (\<lambda>k'. k' + 1) i')
                          (l'\<lparr>l_indexInCell := l_indexInCell l' + 1\<rparr>) fs')"
proof -
  from d have d': "drop k a = [c, s, en] @ rest" by simp
  have g0: "streamGet a (int k) = Some c"
    using drop_streamGet [OF d', of 0] by simp
  have g1: "streamGet a (int k + 1) = Some s"
    using drop_streamGet [OF d', of 1] by simp
  have g2: "streamGet a (int k + 2) = Some en"
    using drop_streamGet [OF d', of 2] by simp
  from d have "length (drop k a) = 3 + length rest" by simp
  then have len: "int k < int (length a)" "int k + 1 < int (length a)" "int k + 2 < int (length a)"
    by simp_all
  let ?l0 = "l\<lparr>l_startIndex := int k + 3, l_cellNum := Some c\<rparr>"
  let ?l1 = "?l0\<lparr>l_indexInCell := l_indexInCell ?l0 + 1\<rparr>"
  let ?m1 = "?l1\<lparr>l_startFrame := Some (int s - tileStartFrame e)\<rparr>"
  let ?l2 = "?m1\<lparr>l_indexInCell := l_indexInCell ?m1 + 1\<rparr>"
  have s0: "loopBody x e sub a (int k) l fs = Inr (?l0, Some (int k), fs)"
    using idx g0 by (simp add: loopBody_def constants_eval)
  have s1: "loopBody x e sub a (int k + 1) ?l1 fs = Inr (?m1, Some (int k + 1), fs)"
    using idx g1 by (simp add: loopBody_def constants_eval)
  have s2: "loopBody x e sub a (int k + 2) ?l2 fs = readCell x e sub a ?l2 (Some en) fs"
    using idx g2 by (simp add: loopBody_def constants_eval)
  have i1: "map_option (\<lambda>k'. k' + 1) (Some (int k)) = Some (int k + 1)"
    and i2: "map_option (\<lambda>k'. k' + 1) (Some (int k + 1)) = Some (int k + 2)" by simp_all
  have "streamLoop x e sub a (Some (int k)) l fs = streamLoop x e sub a (Some (int k + 1)) ?l1 fs"
    using streamLoop_step [OF len(1) s0] unfolding i1 .
  also have "\<dots> = streamLoop x e sub a (Some (int k + 2)) ?l2 fs"
    using streamLoop_step [OF len(2) s1] unfolding i2 .
  also have "\<dots> = (case readCell x e sub a ?l2 (Some en) fs of
                Inl err \<Rightarrow> Some (Inl err)
              | Inr (l', i', fs') \<Rightarrow>
                  streamLoop x e sub a (map_option (\<lambda>k'. k' + 1) i')
                    (l'\<lparr>l_indexInCell := l_indexInCell l' + 1\<rparr>) fs')"
    unfolding streamLoop_unfold [OF len(3)] s2 ..
  finally have "streamLoop x e sub a (Some (int k)) l fs
                 = (case readCell x e sub a ?l2 (Some en) fs of
                      Inl err \<Rightarrow> Some (Inl err)
                    | Inr (l', i', fs') \<Rightarrow>
                        streamLoop x e sub a (map_option (\<lambda>k'. k' + 1) i')
                          (l'\<lparr>l_indexInCell := l_indexInCell l' + 1\<rparr>) fs')" .
  moreover have "l_cellNum ?l2 = Some c" "l_startFrame ?l2 = Some (int s - tileStartFrame e)"
    "l_startIndex ?l2 = int k + 3" "l_indexInCell ?l2 = 2"
    using idx by simp_all
  ultimately show ?thesis by blast
qed

lemma streamLoop_tail:
  assumes "length (drop k a) < 3" and "l_indexInCell l = 0"
  shows "streamLoop x e sub a (Some (int k)) l fs = Some (Inr fs)"
proof -
  from assms(1) consider "length a \<le> k" | "length a = k + 1" | "length a = k + 2"
    by fastforce
  then show ?thesis
  proof cases
    case 1
    then show ?thesis by (simp add: streamLoop_end)
  next
    case 2
    then have "int k < int (length a)" and e: "\<not> int k + 1 < int (length a)" by simp_all
    then show ?thesis
      using assms(2)
      by (simp add: streamLoop_unfold loopBody_def constants_eval streamLoop_end)
  next
    case 3
    then have "int k < int (length a)" "int k + 1 < int (length a)"
      and e: "\<not> int k + 2 < int (length a)" by simp_all
    then show ?thesis
      using assms(2)
      by (simp add: streamLoop_unfold loopBody_def constants_eval streamLoop_end)
  qed
qed


lemma drop_drop_record:
  assumes "drop k a = ys @ rest"
  shows "drop (k + length ys) a = rest"
proof -
  have "drop (k + length ys) a = drop (length ys) (drop k a)" by (simp add: add.commute)
  with assms show ?thesis by simp
qed

lemma streamLoop_record:
  assumes d: "drop k a = c # s # en # rest" and idx: "l_indexInCell l = 0"
  shows "\<exists>h. l_cellNum h = Some c \<and> l_startFrame h = Some (int s - tileStartFrame e)
             \<and> l_startIndex h = int k + 3
             \<and> (case readCell x e sub a h (Some en) fs of
                   Inl err \<Rightarrow> streamLoop x e sub a (Some (int k)) l fs = Some (Inl err)
                 | Inr (l', i', fs') \<Rightarrow>
                     \<exists>l''. l_indexInCell l'' = 0
                       \<and> streamLoop x e sub a (Some (int k)) l fs
                           = streamLoop x e sub a
                               (Some (int k + 3 + (int en - int s + 1) * sublayers e)) l'' fs')"
proof -
  from streamLoop_header [OF d idx, of e x sub fs] obtain h where
    h: "l_cellNum h = Some c" "l_startFrame h = Some (int s - tileStartFrame e)"
      "l_startIndex h = int k + 3" "l_indexInCell h = 2"
    and run: "streamLoop x e sub a (Some (int k)) l fs
                 = (case readCell x e sub a h (Some en) fs of
                      Inl err \<Rightarrow> Some (Inl err)
                    | Inr (l', i', fs') \<Rightarrow>
                        streamLoop x e sub a (map_option (\<lambda>k'. k' + 1) i')
                          (l'\<lparr>l_indexInCell := l_indexInCell l' + 1\<rparr>) fs')"
    by blast
  have "case readCell x e sub a h (Some en) fs of
          Inl err \<Rightarrow> streamLoop x e sub a (Some (int k)) l fs = Some (Inl err)
        | Inr (l', i', fs') \<Rightarrow>
            \<exists>l''. l_indexInCell l'' = 0
              \<and> streamLoop x e sub a (Some (int k)) l fs
                  = streamLoop x e sub a
                      (Some (int k + 3 + (int en - int s + 1) * sublayers e)) l'' fs'"
  proof (cases "readCell x e sub a h (Some en) fs")
    case (Inl err)
    with run show ?thesis by simp
  next
    case (Inr r)
    obtain l' i' fs' where r: "r = (l', i', fs')" by (cases r) auto
    from Inr r have rc: "readCell x e sub a h (Some en) fs = Inr (l', i', fs')" by simp
    from readCell_result [OF rc] h have
      l': "l' = h\<lparr>l_endFrame := Some (int en - tileStartFrame e), l_indexInCell := - 1\<rparr>"
      and i': "i' = Some (int k + 3 + (int en - int s + 1) * sublayers e - 1)"
      by (auto simp add: numCellValuesOf_def)
    let ?l = "l'\<lparr>l_indexInCell := l_indexInCell l' + 1\<rparr>"
    from l' have z: "l_indexInCell ?l = 0" by simp
    from i' have "map_option (\<lambda>k'. k' + 1) i'
        = Some (int k + 3 + (int en - int s + 1) * sublayers e)" by simp
    with run rc have "streamLoop x e sub a (Some (int k)) l fs
        = streamLoop x e sub a (Some (int k + 3 + (int en - int s + 1) * sublayers e)) ?l fs'"
      by (simp only: sum.case prod.case)
    with z have "\<exists>l''. l_indexInCell l'' = 0
              \<and> streamLoop x e sub a (Some (int k)) l fs
                  = streamLoop x e sub a
                      (Some (int k + 3 + (int en - int s + 1) * sublayers e)) l'' fs'"
      by (intro exI [of _ ?l] conjI)
    with rc show ?thesis by (simp only: sum.case prod.case)
  qed
  with h show ?thesis by blast
qed

section \<open>Streams of records without values\<close>

text \<open>
  With \<open>sublayers = 0\<close> every record has no value: the loop reads a stream three tokens at
  a time, it ends, and the keys of the features are the numbers that head the triples.
\<close>

lemma streamLoop_no_bands:
  assumes b: "sublayers e = 0"
  shows "drop k a = r \<Longrightarrow> l_indexInCell l = 0 \<Longrightarrow> wellFormed x e fs
           \<Longrightarrow> (\<forall>key f. map_of fs key = Some f \<longrightarrow> withoutData f)
           \<Longrightarrow> \<exists>fs'. streamLoop x e sub a (Some (int k)) l fs = Some (Inr fs')
                    \<and> wellFormed x e fs' \<and> (\<forall>key f. map_of fs' key = Some f \<longrightarrow> withoutData f)
                    \<and> fst ` set fs' = fst ` set fs \<union> Some ` set (recordHeads r)"
proof (induction r arbitrary: k l fs rule: recordHeads.induct)
  case (1 c s en rest)
  note d = "1.prems"(1) and idx = "1.prems"(2) and wf = "1.prems"(3) and wd = "1.prems"(4)
  from streamLoop_record [OF d idx, of e x sub fs] obtain h where
    h: "l_cellNum h = Some c" "l_startFrame h = Some (int s - tileStartFrame e)"
      "l_startIndex h = int k + 3"
    and run: "case readCell x e sub a h (Some en) fs of
                   Inl err \<Rightarrow> streamLoop x e sub a (Some (int k)) l fs = Some (Inl err)
                 | Inr (l', i', fs') \<Rightarrow>
                     \<exists>l''. l_indexInCell l'' = 0
                       \<and> streamLoop x e sub a (Some (int k)) l fs
                           = streamLoop x e sub a
                               (Some (int k + 3 + (int en - int s + 1) * sublayers e)) l'' fs'"
    by blast
  have "\<forall>n j. numCellValuesOf e (l_startFrame h) (map_option (\<lambda>v. int v - tileStartFrame e) (Some en))
                 = Some n \<and> int j < n
               \<longrightarrow> isNoData e (streamGet a (int j + l_startIndex h))"
    using b h by (simp add: numCellValuesOf_def)
  from readCell_without_samples [OF wf this] obtain f' l' i' where
    rc: "readCell x e sub a h (Some en) fs
           = Inr (l', i', AList.update (l_cellNum h) f' (addFeature x e (l_cellNum h) fs))"
    and ar: "values f' = values (cellFeature x e (l_cellNum h) fs)"
      "dates f' = dates (cellFeature x e (l_cellNum h) fs)"
      "startOffsets f' = startOffsets (cellFeature x e (l_cellNum h) fs)"
    by blast
  let ?fs = "AList.update (l_cellNum h) f' (addFeature x e (l_cellNum h) fs)"
  from wf rc have wf': "wellFormed x e ?fs" by (rule readCell_wellFormed)
  from cellFeature_withoutData [OF wd, of x e "l_cellNum h"] ar
  have "withoutData f'" by (simp add: withoutData_def)
  with wd have wd': "\<forall>key f. map_of ?fs key = Some f \<longrightarrow> withoutData f"
    by (auto simp add: update_conv' map_of_addFeature_other split: if_splits)
  from readCell_keys [OF rc] h have "set (map fst ?fs) = set (map fst fs) \<union> {Some c}"
    by (auto split: if_splits)
  then have keys: "fst ` set ?fs = fst ` set fs \<union> {Some c}" by (simp only: set_map)
  from run rc b obtain l'' where idx': "l_indexInCell l'' = 0"
    and step: "streamLoop x e sub a (Some (int k)) l fs
                 = streamLoop x e sub a (Some (int (k + 3))) l'' ?fs"
    by auto
  from d have "drop k a = [c, s, en] @ rest" by simp
  from drop_drop_record [OF this] have d': "drop (k + 3) a = rest"
    by (simp add: numeral_3_eq_3)
  from "1.IH" [OF d' idx' wf' wd'] obtain fs' where
    "streamLoop x e sub a (Some (int (k + 3))) l'' ?fs = Some (Inr fs')"
    and "wellFormed x e fs'" and "\<forall>key f. map_of fs' key = Some f \<longrightarrow> withoutData f"
    and "fst ` set fs' = fst ` set ?fs \<union> Some ` set (recordHeads rest)"
    by blast
  with step keys show ?case by auto
qed (simp_all add: streamLoop_tail)

lemma sublayersLoop_no_bands:
  assumes b: "sublayers e = 0"
  shows "wellFormed x e fs \<Longrightarrow> (\<forall>key f. map_of fs key = Some f \<longrightarrow> withoutData f)
           \<Longrightarrow> \<exists>fs'. sublayersLoop x e sub (map Some streams) fs = Some (Inr fs')
                    \<and> wellFormed x e fs' \<and> (\<forall>key f. map_of fs' key = Some f \<longrightarrow> withoutData f)
                    \<and> fst ` set fs' = fst ` set fs \<union> Some ` (\<Union>a \<in> set streams. set (recordHeads a))"
proof (induction streams arbitrary: sub fs)
  case Nil
  then show ?case by simp
next
  case (Cons a streams)
  have "drop 0 a = a" by simp
  from streamLoop_no_bands [OF b this _ Cons.prems, of initialLocals sub]
  obtain fs1 where r: "streamLoop x e sub a (Some 0) initialLocals fs = Some (Inr fs1)"
    and wf: "wellFormed x e fs1" and wd: "\<forall>key f. map_of fs1 key = Some f \<longrightarrow> withoutData f"
    and k1: "fst ` set fs1 = fst ` set fs \<union> Some ` set (recordHeads a)"
    by (auto simp add: initialLocals_def)
  from Cons.IH [OF wf wd, of "Suc sub"] obtain fs' where
    "sublayersLoop x e (Suc sub) (map Some streams) fs1 = Some (Inr fs')"
    and "wellFormed x e fs'" and "\<forall>key f. map_of fs' key = Some f \<longrightarrow> withoutData f"
    and "fst ` set fs' = fst ` set fs1 \<union> Some ` (\<Union>a \<in> set streams. set (recordHeads a))"
    by blast
  with r k1 show ?case by auto
qed

section \<open>A stream on which the decode does not return\<close>

text \<open>
  A record with \<open>numCellValues = -3\<close> at the beginning of a stream: after its third token
  line 171 sets \<^verbatim>\<open>i\<close> to \<open>-1\<close>, and the loop of line 75 is back at \<open>i = 0\<close> in the state
  in which it started. One band per frame and a record that ends four frames before it
  starts is such a record, as on the stream \<open>[0, 5, 1]\<close>.
\<close>

lemma loopBody_cycling:
  assumes n3: "(int en - int s + 1) * sublayers e = - 3"
    and cyc: "cycling (int s - tileStartFrame e) (Some k) l" and wf: "wellFormed x e fs"
  shows "\<exists>l' k' fs'. loopBody x e sub (c # s # en # rest) k l fs = Inr (l', Some k', fs')
           \<and> k < int (length (c # s # en # rest))
           \<and> cycling (int s - tileStartFrame e) (Some (k' + 1))
                (l'\<lparr>l_indexInCell := l_indexInCell l' + 1\<rparr>)
           \<and> wellFormed x e fs'"
proof -
  let ?a = "c # s # en # rest"
  let ?sf = "int s - tileStartFrame e"
  from cyc consider (first) "k = 0" "l_indexInCell l = 0"
    | (second) "k = 1" "l_indexInCell l = 1" "l_startIndex l = 3"
    | (third) "k = 2" "l_indexInCell l = 2" "l_startIndex l = 3" "l_startFrame l = Some ?sf"
    by (auto simp add: cycling_def)
  then show ?thesis
  proof cases
    case first
    with wf show ?thesis
      by (simp add: loopBody_def streamGet_def constants_eval cycling_def)
  next
    case second
    with wf show ?thesis
      by (simp add: loopBody_def streamGet_def constants_eval cycling_def)
  next
    case third
    have "\<forall>n j. numCellValuesOf e (l_startFrame l) (map_option (\<lambda>v. int v - tileStartFrame e) (Some en))
                 = Some n \<and> int j < n
               \<longrightarrow> isNoData e (streamGet ?a (int j + l_startIndex l))"
      using n3 third by (simp add: numCellValuesOf_def)
    from readCell_without_samples [OF wf this, of sub] obtain fs' where
      rc: "readCell x e sub ?a l (Some en) fs
             = Inr (l\<lparr>l_endFrame := Some (int en - tileStartFrame e), l_indexInCell := - 1\<rparr>,
                    Some (- 1), fs')"
      using n3 third by (auto simp add: numCellValuesOf_def)
    from wf rc have "wellFormed x e fs'" by (rule readCell_wellFormed)
    with rc third show ?thesis
      by (simp add: loopBody_def streamGet_def constants_eval cycling_def)
  qed
qed

lemma streamLoop_cycling:
  assumes run: "streamLoop x e sub (c # s # en # rest) i l fs = Some y"
    and n3: "(int en - int s + 1) * sublayers e = - 3"
  shows "\<not> (cycling (int s - tileStartFrame e) i l \<and> wellFormed x e fs)"
proof -
  let ?a = "c # s # en # rest"
  let ?sf = "int s - tileStartFrame e"
  let ?Q = "\<lambda>x' e' (s' :: nat) (a' :: nat list) i l (fs :: features) (y :: error + features).
              x' = x \<and> e' = e \<and> s' = sub \<and> a' = ?a \<longrightarrow> \<not> (cycling ?sf i l \<and> wellFormed x e fs)"
  have inner: "?Q x' e' s' a' i l fs y"
    if ih: "\<And>x' e' s' a' i l fs y. loop x' e' s' a' i l fs = Some y \<Longrightarrow> ?Q x' e' s' a' i l fs y"
      and body: "(case i of None \<Rightarrow> Some (Inr fs)
                  | Some k \<Rightarrow>
                     if k < int (length a')
                     then case loopBody x' e' s' a' k l fs of
                            Inl err \<Rightarrow> Some (Inl err)
                          | Inr (l', i', fs') \<Rightarrow>
                              loop x' e' s' a' (map_option (\<lambda>k'. k' + 1) i')
                                (l'\<lparr>l_indexInCell := l_indexInCell l' + 1\<rparr>) fs'
                     else Some (Inr fs)) = Some y"
    for loop x' e' s' a' i l fs y
  proof (intro impI notI)
    assume eq: "x' = x \<and> e' = e \<and> s' = sub \<and> a' = ?a"
      and c: "cycling ?sf i l \<and> wellFormed x e fs"
    from c obtain k where i: "i = Some k" by (auto simp add: cycling_def)
    from loopBody_cycling [OF n3, of k l x fs sub c rest] c i obtain l1 k1 fs1 where
      lb: "loopBody x e sub ?a k l fs = Inr (l1, Some k1, fs1)"
      and k: "k < int (length ?a)"
      and c1: "cycling ?sf (Some (k1 + 1)) (l1\<lparr>l_indexInCell := l_indexInCell l1 + 1\<rparr>)"
      and wf1: "wellFormed x e fs1"
      by blast
    from body i eq lb k have
      "loop x' e' s' a' (Some (k1 + 1)) (l1\<lparr>l_indexInCell := l_indexInCell l1 + 1\<rparr>) fs1 = Some y"
      by simp
    from ih [OF this] eq c1 wf1 show False by blast
  qed
  have "?Q x e sub ?a i l fs y"
    by (rule streamLoop_raw [where P = ?Q, OF inner run])
  then show ?thesis by simp
qed

lemma streamLoop_does_not_return:
  assumes "(int en - int s + 1) * sublayers e = - 3" and "wellFormed x e fs"
  shows "streamLoop x e sub (c # s # en # rest) (Some 0) initialLocals fs = None"
proof -
  have "cycling (int s - tileStartFrame e) (Some 0) initialLocals"
    by (simp add: cycling_def initialLocals_def)
  with streamLoop_cycling [OF _ assms(1), of x sub c rest "Some 0" initialLocals fs] assms(2)
  show ?thesis
    by (cases "streamLoop x e sub (c # s # en # rest) (Some 0) initialLocals fs") auto
qed

lemma decode_does_not_return:
  "getCellTimeseries demoExternals [Some [0, 5, 1]] (demoOptions 1 0 1) = None"
proof -
  have "(int 1 - int 5 + 1) * sublayers (demoEnv 1 1 0 1) = - 3"
    by (simp add: demoEnv_def)
  from streamLoop_does_not_return [OF this wellFormed_Nil, of demoExternals 0 0 "[]"]
  show ?thesis
    using makeEnv_demo [of 1 1 0 1]
    by (simp add: getCellTimeseries_def fourwingsOf_def demoOptions_def demoParseOptions_def)
qed

section \<open>The arrays that a record creates\<close>

text \<open>
  The first sample of a record that is not the sentinel creates the two arrays of the
  sublayer with the length \<open>numCellValues\<close>, and no write of the record is beyond it.
\<close>

lemma div_below_bound:
  assumes "int j < n"
  shows "int j div b < n"
proof -
  have "int j div b \<le> int j"
  proof (cases "0 < b")
    case True
    then obtain k where "b = int k" using zero_less_imp_eq_int by blast
    then have "int j div b = int (j div k)" by (simp add: zdiv_int)
    also have "\<dots> \<le> int j" by simp
    finally show ?thesis .
  next
    case False
    then have "b = 0 \<or> b < 0" by linarith
    then have "int j div b \<le> 0"
      by (auto simp add: div_nonneg_neg_le0)
    then show ?thesis by linarith
  qed
  with assms show ?thesis by linarith
qed

lemma addCellValue_lengths:
  assumes "addCellValue e s a sf n si j (f, c) = Inr (f', c')" and "int j < n"
  shows "(aprops (values f) (int s) = None \<longrightarrow>
            (if isNoData e (streamGet a (int j + si)) then aprops (values f') (int s) = None
             else denseLengths s f' = (Some (nat n), Some (nat n))))
       \<and> (denseLengths s f = (Some (nat n), Some (nat n))
            \<longrightarrow> denseLengths s f' = (Some (nat n), Some (nat n)))"
  using assms div_below_bound [OF assms(2), of "sublayers e"]
  by (auto simp add: addCellValue_def storeValue_def sumValue_def createSublayerProperties_def
        denseLengths_def newArray_def alength_arraySet Let_def
        split: sum.splits option.splits if_splits)

lemma cellValuesLoop_lengths:
  assumes "cellValuesLoop e s a sf n si m (f, c) = Inr (f', c')" and "int m \<le> n"
    and "aprops (values f) (int s) = None"
  shows "((\<exists>j<m. \<not> isNoData e (streamGet a (int j + si)))
            \<longrightarrow> denseLengths s f' = (Some (nat n), Some (nat n)))
       \<and> ((\<forall>j<m. isNoData e (streamGet a (int j + si)))
            \<longrightarrow> aprops (values f') (int s) = None)"
  using assms
proof (induction m arbitrary: f' c')
  case 0
  then show ?case by simp
next
  case (Suc m)
  from cellValuesLoop_Suc_Inr [OF Suc.prems(1)] obtain f1 c1 where
    l: "cellValuesLoop e s a sf n si m (f, c) = Inr (f1, c1)"
    and a: "addCellValue e s a sf n si m (f1, c1) = Inr (f', c')" by auto
  from Suc.prems(2) have lt: "int m < n" and le: "int m \<le> n" by simp_all
  note ih = Suc.IH [OF l le Suc.prems(3)]
  note st = addCellValue_lengths [OF a lt]
  show ?case
  proof (intro conjI impI)
    assume ex: "\<exists>j<Suc m. \<not> isNoData e (streamGet a (int j + si))"
    show "denseLengths s f' = (Some (nat n), Some (nat n))"
    proof (cases "\<exists>j<m. \<not> isNoData e (streamGet a (int j + si))")
      case True
      with ih have "denseLengths s f1 = (Some (nat n), Some (nat n))" by blast
      with st show ?thesis by blast
    next
      case False
      with ih have n1: "aprops (values f1) (int s) = None" by blast
      from False ex have "\<not> isNoData e (streamGet a (int m + si))"
        using less_Suc_eq by auto
      with st n1 show ?thesis by simp
    qed
  next
    assume all: "\<forall>j<Suc m. isNoData e (streamGet a (int j + si))"
    then have "\<forall>j<m. isNoData e (streamGet a (int j + si))" by simp
    with ih have n1: "aprops (values f1) (int s) = None" by blast
    from all have "isNoData e (streamGet a (int m + si))" by simp
    with st n1 show "aprops (values f') (int s) = None" by simp
  qed
qed

section \<open>Values and dates of equal length\<close>

lemma equalLengths_newFeature: "equalLengths (newFeature x e k)"
  by (simp add: equalLengths_def newFeature_def split: prod.splits)

lemma addCellValue_equalLengths:
  assumes "equalLengths f" and "addCellValue e s a sf n si j (f, c) = Inr (f', c')"
  shows "equalLengths f'"
proof -
  from assms(1) have "map_option alength (aprops (values f) (int s))
                        = map_option alength (aprops (dates f) (int s))"
    by (simp add: equalLengths_def)
  note e0 = this
  have "map_option alength (aprops (values f') t) = map_option alength (aprops (dates f') t)" for t
  proof (cases "t = int s")
    case False
    with addCellValue_frame [OF assms(2)] assms(1) show ?thesis
      by (simp add: onlySublayerChanged_def equalLengths_def)
  next
    case True
    with e0 assms(2) show ?thesis
      by (auto simp add: addCellValue_def storeValue_def sumValue_def createSublayerProperties_def
            newArray_def alength_arraySet Let_def
            split: sum.splits option.splits if_splits)
  qed
  then show ?thesis by (simp add: equalLengths_def)
qed

lemma cellValuesLoop_equalLengths:
  assumes "equalLengths f" and "cellValuesLoop e s a sf n si m (f, c) = Inr (f', c')"
  shows "equalLengths f'"
  using assms(2)
proof (induction m arbitrary: f' c')
  case 0
  with assms(1) show ?case by simp
next
  case (Suc m)
  from cellValuesLoop_Suc_Inr [OF Suc.prems] obtain f1 c1 where
    l: "cellValuesLoop e s a sf n si m (f, c) = Inr (f1, c1)"
    and a: "addCellValue e s a sf n si m (f1, c1) = Inr (f', c')" by auto
  from Suc.IH [OF l] a show ?case by (rule addCellValue_equalLengths)
qed

lemma readCell_parts:
  assumes "readCell x e s a l val fs = Inr (l', i', fs')"
  shows "\<exists>f1 c1 f'. readCellValues e s a (l_startFrame l) (l_startIndex l)
              (numCellValuesOf e (l_startFrame l) (map_option (\<lambda>v. int v - tileStartFrame e) val))
              (cellFeature x e (l_cellNum l) fs, filledArray (sublayersLength e) (Fin 0))
            = Inr (f1, c1)
          \<and> averageValue e s (f1, c1) = Inr f'
          \<and> fs' = AList.update (l_cellNum l) f' (addFeature x e (l_cellNum l) fs)"
  using assms by (auto simp add: readCell_def Let_def split: sum.splits)

lemma readCell_equalLengths:
  assumes inv: "\<forall>key f. map_of fs key = Some f \<longrightarrow> equalLengths f"
    and rc: "readCell x e s a l val fs = Inr (l', i', fs')"
  shows "\<forall>key f. map_of fs' key = Some f \<longrightarrow> equalLengths f"
proof -
  let ?f0 = "cellFeature x e (l_cellNum l) fs"
  from readCell_parts [OF rc] obtain f1 c1 f' where
    rv: "readCellValues e s a (l_startFrame l) (l_startIndex l)
              (numCellValuesOf e (l_startFrame l) (map_option (\<lambda>v. int v - tileStartFrame e) val))
              (?f0, filledArray (sublayersLength e) (Fin 0)) = Inr (f1, c1)"
    and av: "averageValue e s (f1, c1) = Inr f'"
    and fs': "fs' = AList.update (l_cellNum l) f' (addFeature x e (l_cellNum l) fs)"
    by blast
  from inv have "equalLengths ?f0"
    by (auto simp add: cellFeature_def equalLengths_newFeature split: option.splits)
  with rv have "equalLengths f1"
    by (auto simp add: readCellValues_def cellValuesLoop_equalLengths split: option.splits)
  with averageValue_arrays [OF av] have "equalLengths f'" by (simp add: equalLengths_def)
  with inv fs' show ?thesis
    by (auto simp add: update_conv' map_of_addFeature_other split: if_splits)
qed

lemma loopBody_equalLengths:
  assumes "\<forall>key f. map_of fs key = Some f \<longrightarrow> equalLengths f"
    and "loopBody x e s a k l fs = Inr (l', i', fs')"
  shows "\<forall>key f. map_of fs' key = Some f \<longrightarrow> equalLengths f"
  using loopBody_cases [OF assms(2)] assms(1) readCell_equalLengths [OF assms(1)] by blast

lemma sublayersLoop_equalLengths:
  assumes "sublayersLoop x e s arrs [] = Some (Inr fs')"
  shows "\<forall>key f. map_of fs' key = Some f \<longrightarrow> equalLengths f"
  using assms
proof (rule sublayersLoop_invariant)
  show "\<forall>key f. map_of [] key = Some f \<longrightarrow> equalLengths f" by simp
next
  fix s a k l fs l' i' fs'
  assume "\<forall>key f. map_of fs key = Some f \<longrightarrow> equalLengths f"
    "loopBody x e s a k l (fs :: features) = Inr (l', i', fs')"
  then show "\<forall>key f. map_of fs' key = Some f \<longrightarrow> equalLengths f" by (rule loopBody_equalLengths)
qed

section \<open>Sublayers that have not written\<close>

lemma unwrittenFrom_newFeature: "unwrittenFrom s (newFeature x e k)"
  by (simp add: unwrittenFrom_def newFeature_def split: prod.splits)

lemma cellFeature_unwrittenFrom:
  assumes "\<forall>key f. map_of fs key = Some f \<longrightarrow> unwrittenFrom s f"
  shows "unwrittenFrom s (cellFeature x e k fs)"
  using assms by (auto simp add: cellFeature_def unwrittenFrom_newFeature split: option.splits)

lemma loopBody_unwrittenFrom:
  assumes inv: "\<forall>key f. map_of fs key = Some f \<longrightarrow> unwrittenFrom (Suc s) f"
    and lb: "loopBody x e s a k l fs = Inr (l', i', fs')"
  shows "\<forall>key f. map_of fs' key = Some f \<longrightarrow> unwrittenFrom (Suc s) f"
  using loopBody_cases [OF lb]
proof
  assume "fs' = fs"
  with inv show ?thesis by simp
next
  assume rc: "readCell x e s a l (streamGet a k) fs = Inr (l', i', fs')"
  from readCell_result [OF rc] obtain f' where
    ch: "onlySublayerChanged s (cellFeature x e (l_cellNum l) fs) f'"
    and fs': "fs' = AList.update (l_cellNum l) f' (addFeature x e (l_cellNum l) fs)" by blast
  from cellFeature_unwrittenFrom [OF inv, of x e "l_cellNum l"] ch
  have "unwrittenFrom (Suc s) f'"
    by (auto simp add: unwrittenFrom_def onlySublayerChanged_def)
  with inv fs' show ?thesis
    by (auto simp add: update_conv' map_of_addFeature_other split: if_splits)
qed

lemma unwrittenFrom_mono: "unwrittenFrom s f \<Longrightarrow> s \<le> t \<Longrightarrow> unwrittenFrom t f"
  by (simp add: unwrittenFrom_def)

lemma streamLoop_unwrittenFrom:
  assumes "streamLoop x e s a i l fs = Some (Inr fs')"
    and "\<forall>key f. map_of fs key = Some f \<longrightarrow> unwrittenFrom s f"
  shows "\<forall>key f. map_of fs' key = Some f \<longrightarrow> unwrittenFrom (Suc s) f"
  using assms(1)
proof (rule streamLoop_invariant)
  from assms(2) show "\<forall>key f. map_of fs key = Some f \<longrightarrow> unwrittenFrom (Suc s) f"
    using unwrittenFrom_mono [of s _ "Suc s"] by auto
next
  fix k l fs l' i' fs'
  assume "\<forall>key f. map_of fs key = Some f \<longrightarrow> unwrittenFrom (Suc s) f"
    "loopBody x e s a k l fs = Inr (l', i', fs')"
  then show "\<forall>key f. map_of fs' key = Some f \<longrightarrow> unwrittenFrom (Suc s) f"
    by (rule loopBody_unwrittenFrom)
qed

section \<open>Later sublayers keep the arrays of a sublayer\<close>

lemma loopBody_keeps_lengths:
  assumes inv: "\<exists>f. map_of fs key = Some f \<and> denseLengths s0 f = X"
    and lb: "loopBody x e s a k l fs = Inr (l', i', fs')" and ne: "s0 \<noteq> s"
  shows "\<exists>f. map_of fs' key = Some f \<and> denseLengths s0 f = X"
  using loopBody_cases [OF lb]
proof
  assume "fs' = fs"
  with inv show ?thesis by simp
next
  assume rc: "readCell x e s a l (streamGet a k) fs = Inr (l', i', fs')"
  show ?thesis
  proof (cases "key = l_cellNum l")
    case False
    with readCell_other [OF rc] inv show ?thesis by simp
  next
    case True
    from inv obtain f where f: "map_of fs key = Some f" and x: "denseLengths s0 f = X" by blast
    from readCell_feature [OF rc] True f obtain f' where
      "map_of fs' key = Some f'" and "onlySublayerChanged s f f'"
      by (auto simp add: cellFeature_def)
    with x ne show ?thesis
      by (auto simp add: onlySublayerChanged_def denseLengths_def)
  qed
qed

lemma sublayersLoop_invariant_from:
  assumes step: "\<And>s a k l fs l' i' fs'. s0 \<le> s \<Longrightarrow> P fs
                   \<Longrightarrow> loopBody x e s a k l fs = Inr (l', i', fs') \<Longrightarrow> P fs'"
  shows "s0 \<le> s1 \<Longrightarrow> sublayersLoop x e s1 arrs fs = Some (Inr fs') \<Longrightarrow> P fs \<Longrightarrow> P fs'"
proof (induction arrs arbitrary: s1 fs)
  case Nil
  then show ?case by simp
next
  case (Cons oa arrs)
  from Cons.prems(2) obtain a fs1 where
    r: "streamLoop x e s1 a (Some 0) initialLocals fs = Some (Inr fs1)"
    and rest: "sublayersLoop x e (Suc s1) arrs fs1 = Some (Inr fs')"
    by (cases oa) (auto split: option.splits sum.splits)
  from r Cons.prems(3) have "P fs1"
    by (rule streamLoop_invariant) (rule step [OF Cons.prems(1)])
  from Cons.prems(1) have "s0 \<le> Suc s1" by simp
  from Cons.IH [OF this rest \<open>P fs1\<close>] show ?case .
qed

lemma sublayersLoop_keeps_lengths:
  assumes run: "sublayersLoop x e s1 arrs fs = Some (Inr fs')" and lt: "s0 < s1"
    and inv: "\<exists>f. map_of fs key = Some f \<and> denseLengths s0 f = X"
  shows "\<exists>f. map_of fs' key = Some f \<and> denseLengths s0 f = X"
proof (rule sublayersLoop_invariant_from [where ?s0.0 = s1 and ?s1.0 = s1
        and P = "\<lambda>fs. \<exists>f. map_of fs key = Some f \<and> denseLengths s0 f = X", OF _ _ run inv])
  show "s1 \<le> s1" by simp
next
  fix s a k l fs l' i' fs'
  assume "s1 \<le> s" and "\<exists>f. map_of fs key = Some f \<and> denseLengths s0 f = X"
    and "loopBody x e s a k l (fs :: features) = Inr (l', i', fs')"
  with lt show "\<exists>f. map_of fs' key = Some f \<and> denseLengths s0 f = X"
    using loopBody_keeps_lengths [of fs key s0 X x e s a k l l' i' fs'] by simp
qed

section \<open>Streams of whole records\<close>

text \<open>
  On a stream that is a concatenation of whole records the loop of line 75 runs the step
  of each record in turn. When the cells of the records are different, the arrays that a
  record creates for its cell are those of the feature after the stream, and the streams
  of the later sublayers leave them alone.
\<close>

lemma hasSample_iff:
  assumes d: "drop k a = c # s # en # vs @ rest"
  shows "hasSample e vs \<longleftrightarrow> (\<exists>j<length vs. \<not> isNoData e (streamGet a (int j + (int k + 3))))"
proof -
  from d have d': "drop k a = ([c, s, en] @ vs) @ rest" by simp
  have g: "streamGet a (int j + (int k + 3)) = Some (vs ! j)" if "j < length vs" for j
  proof -
    from that have "3 + j < length ([c, s, en] @ vs)" by simp
    then have "streamGet a (int k + int (3 + j)) = Some (([c, s, en] @ vs) ! (3 + j))"
      by (rule drop_streamGet [OF d'])
    moreover have "([c, s, en] @ vs) ! (3 + j) = vs ! j" by (simp add: nth_append)
    moreover have "int k + int (3 + j) = int j + (int k + 3)" by simp
    ultimately show ?thesis by (simp only:)
  qed
  have "hasSample e vs \<longleftrightarrow> (\<exists>j<length vs. int (vs ! j) \<noteq> noDataValue e)"
    unfolding hasSample_def list_ex_iff by (metis in_set_conv_nth)
  also have "\<dots> \<longleftrightarrow> (\<exists>j<length vs. \<not> isNoData e (streamGet a (int j + (int k + 3))))"
    using g by (auto simp add: isNoData_def)
  finally show ?thesis .
qed

lemma readCell_record_lengths:
  assumes rc: "readCell x e sub a h (Some en) fs = Inr (l', i', fs')"
    and h: "l_cellNum h = Some c" "l_startFrame h = Some (int s - tileStartFrame e)"
      "l_startIndex h = int k + 3"
    and d: "drop k a = c # s # en # vs @ rest"
    and w: "int (length vs) = (int en - int s + 1) * sublayers e"
    and u: "unwrittenFrom sub (cellFeature x e (Some c) fs)"
  shows "\<exists>f'. map_of fs' (Some c) = Some f'
           \<and> denseLengths sub f' = (if hasSample e vs then (Some (length vs), Some (length vs))
                                     else (None, None))"
proof -
  let ?f0 = "cellFeature x e (Some c) fs"
  let ?c0 = "filledArray (sublayersLength e) (Fin 0) :: jsnum jsarray"
  let ?n = "int (length vs)"
  let ?sf = "int s - tileStartFrame e"
  from h w have n: "numCellValuesOf e (l_startFrame h)
                      (map_option (\<lambda>v. int v - tileStartFrame e) (Some en)) = Some ?n"
    by (simp add: numCellValuesOf_def)
  from readCell_parts [OF rc] h n obtain f1 c1 f' where
    rv: "readCellValues e sub a (Some ?sf) (int k + 3) (Some ?n) (?f0, ?c0) = Inr (f1, c1)"
    and av: "averageValue e sub (f1, c1) = Inr f'"
    and fs': "fs' = AList.update (Some c) f' (addFeature x e (Some c) fs)"
    by auto
  from rv have lp: "cellValuesLoop e sub a ?sf ?n (int k + 3) (length vs) (?f0, ?c0) = Inr (f1, c1)"
    by (simp add: readCellValues_def)
  from u have v0: "aprops (values ?f0) (int sub) = None" and d0: "aprops (dates ?f0) (int sub) = None"
    by (simp_all add: unwrittenFrom_def)
  from fs' have m: "map_of fs' (Some c) = Some f'" by (simp add: update_conv')
  from averageValue_arrays [OF av] have eq: "denseLengths sub f' = denseLengths sub f1"
    by (simp add: denseLengths_def)
  have "denseLengths sub f1 = (if hasSample e vs then (Some (length vs), Some (length vs))
                                else (None, None))"
  proof (cases "hasSample e vs")
    case True
    then have "\<exists>j<length vs. \<not> isNoData e (streamGet a (int j + (int k + 3)))"
      by (simp only: hasSample_iff [OF d])
    with cellValuesLoop_lengths [OF lp _ v0] True show ?thesis by simp
  next
    case False
    then have "\<forall>j<length vs. isNoData e (streamGet a (int j + (int k + 3)))"
      by (simp only: hasSample_iff [OF d] not_ex not_less simp_thms) auto
    from cellValuesLoop_all_noData [OF this] lp have "f1 = ?f0" by simp
    with v0 d0 False show ?thesis by (simp add: denseLengths_def)
  qed
  with m eq show ?thesis by simp
qed

lemma streamLoop_records:
  assumes whole: "\<forall>r \<in> set rs. wholeRecord e r" and dist: "distinct (map fst rs)"
    and d: "drop k a = encodeStream rs" and idx: "l_indexInCell l = 0"
    and run: "streamLoop x e sub a (Some (int k)) l fs = Some (Inr gs)"
    and u: "\<forall>r \<in> set rs. unwrittenFrom sub (cellFeature x e (Some (fst r)) fs)"
  shows "(\<forall>c s en vs. (c, s, en, vs) \<in> set rs \<longrightarrow>
            (\<exists>f. map_of gs (Some c) = Some f
               \<and> denseLengths sub f = (if hasSample e vs then (Some (length vs), Some (length vs))
                                        else (None, None))))
       \<and> (\<forall>key. key \<notin> Some ` fst ` set rs \<longrightarrow> map_of gs key = map_of fs key)"
  using assms
proof (induction rs arbitrary: k l fs)
  case Nil
  from Nil.prems(3) have "length (drop k a) < 3" by (simp add: encodeStream_def)
  from streamLoop_tail [OF this Nil.prems(4), of x e sub fs] Nil.prems(5) show ?case by simp
next
  case (Cons r rs)
  obtain c s en vs where r: "r = (c, s, en, vs)" by (cases r) auto
  from Cons.prems(3) r have d: "drop k a = c # s # en # vs @ encodeStream rs"
    by (simp add: encodeStream_def encodeRecord_def)
  from Cons.prems(1) r have w: "int (length vs) = (int en - int s + 1) * sublayers e"
    by (simp add: wholeRecord_def)
  note idx = Cons.prems(4) and run = Cons.prems(5)
  from streamLoop_record [OF d idx, of e x sub fs] obtain h where
    h: "l_cellNum h = Some c" "l_startFrame h = Some (int s - tileStartFrame e)"
      "l_startIndex h = int k + 3"
    and st: "case readCell x e sub a h (Some en) fs of
                   Inl err \<Rightarrow> streamLoop x e sub a (Some (int k)) l fs = Some (Inl err)
                 | Inr (l', i', fs') \<Rightarrow>
                     \<exists>l''. l_indexInCell l'' = 0
                       \<and> streamLoop x e sub a (Some (int k)) l fs
                           = streamLoop x e sub a
                               (Some (int k + 3 + (int en - int s + 1) * sublayers e)) l'' fs'"
    by blast
  from st run obtain l' i' fs1 l'' where
    rc: "readCell x e sub a h (Some en) fs = Inr (l', i', fs1)"
    and idx': "l_indexInCell l'' = 0"
    and run': "streamLoop x e sub a (Some (int k + 3 + (int en - int s + 1) * sublayers e)) l'' fs1
                 = Some (Inr gs)"
    by (cases "readCell x e sub a h (Some en) fs") auto
  from w have pos: "int k + 3 + (int en - int s + 1) * sublayers e = int (k + 3 + length vs)"
    by simp
  from d have "drop k a = (c # s # en # vs) @ encodeStream rs" by simp
  from drop_drop_record [OF this]
  have "drop (k + length (c # s # en # vs)) a = encodeStream rs" .
  moreover have "k + length (c # s # en # vs) = k + 3 + length vs" by simp
  ultimately have d': "drop (k + 3 + length vs) a = encodeStream rs" by (simp only:)
  from Cons.prems(6) r have u0: "unwrittenFrom sub (cellFeature x e (Some c) fs)" by simp
  from readCell_record_lengths [OF rc h d w u0] obtain f' where
    m: "map_of fs1 (Some c) = Some f'"
    and dl: "denseLengths sub f' = (if hasSample e vs then (Some (length vs), Some (length vs))
                                     else (None, None))"
    by blast
  have other: "map_of fs1 key = map_of fs key" if "key \<noteq> Some c" for key
    using readCell_other [OF rc] that h by simp
  from Cons.prems(2) r have nc: "c \<notin> fst ` set rs" and dist': "distinct (map fst rs)" by simp_all
  have u': "\<forall>r \<in> set rs. unwrittenFrom sub (cellFeature x e (Some (fst r)) fs1)"
  proof
    fix r' assume r': "r' \<in> set rs"
    with nc have "Some (fst r') \<noteq> Some c" by auto
    from other [OF this] have "cellFeature x e (Some (fst r')) fs1 = cellFeature x e (Some (fst r')) fs"
      by (simp add: cellFeature_def)
    with Cons.prems(6) r' show "unwrittenFrom sub (cellFeature x e (Some (fst r')) fs1)" by simp
  qed
  from Cons.prems(1) have whole': "\<forall>r \<in> set rs. wholeRecord e r" by simp
  from run' pos have run'': "streamLoop x e sub a (Some (int (k + 3 + length vs))) l'' fs1
                              = Some (Inr gs)" by simp
  from Cons.IH [OF whole' dist' d' idx' run'' u'] have
    ih1: "\<forall>c s en vs. (c, s, en, vs) \<in> set rs \<longrightarrow>
            (\<exists>f. map_of gs (Some c) = Some f
               \<and> denseLengths sub f = (if hasSample e vs then (Some (length vs), Some (length vs))
                                        else (None, None)))"
    and ih2: "\<forall>key. key \<notin> Some ` fst ` set rs \<longrightarrow> map_of gs key = map_of fs1 key"
    by blast+
  from nc have "Some c \<notin> Some ` fst ` set rs" by auto
  with ih2 m have mc: "map_of gs (Some c) = Some f'" by simp
  show ?case
  proof (intro conjI allI impI)
    fix c1 s1 en1 vs1
    assume "(c1, s1, en1, vs1) \<in> set (r # rs)"
    then consider "(c1, s1, en1, vs1) = (c, s, en, vs)" | "(c1, s1, en1, vs1) \<in> set rs"
      using r by auto
    then show "\<exists>f. map_of gs (Some c1) = Some f
               \<and> denseLengths sub f = (if hasSample e vs1 then (Some (length vs1), Some (length vs1))
                                        else (None, None))"
    proof cases
      case 1
      with mc dl show ?thesis by simp
    next
      case 2
      with ih1 show ?thesis by blast
    qed
  next
    fix key
    assume "key \<notin> Some ` fst ` set (r # rs)"
    with r have k1: "key \<noteq> Some c" and k2: "key \<notin> Some ` fst ` set rs" by auto
    from ih2 k2 other [OF k1] show "map_of gs key = map_of fs key" by simp
  qed
qed

lemma sublayersLoop_records:
  assumes valid: "\<forall>rs \<in> set recs. (\<forall>r \<in> set rs. wholeRecord e r) \<and> distinct (map fst rs)"
    and run: "sublayersLoop x e sub (map (\<lambda>rs. Some (encodeStream rs)) recs) fs = Some (Inr hs)"
    and u: "\<forall>key f. map_of fs key = Some f \<longrightarrow> unwrittenFrom sub f"
  shows "\<forall>i<length recs. \<forall>c s en vs. (c, s, en, vs) \<in> set (recs ! i) \<longrightarrow>
            (\<exists>f. map_of hs (Some c) = Some f
               \<and> denseLengths (sub + i) f
                   = (if hasSample e vs then (Some (length vs), Some (length vs)) else (None, None)))"
  using assms
proof (induction recs arbitrary: sub fs)
  case Nil
  then show ?case by simp
next
  case (Cons rs recs)
  from Cons.prems(2) obtain fs1 where
    r: "streamLoop x e sub (encodeStream rs) (Some 0) initialLocals fs = Some (Inr fs1)"
    and rest: "sublayersLoop x e (Suc sub) (map (\<lambda>rs. Some (encodeStream rs)) recs) fs1
                 = Some (Inr hs)"
    by (auto split: option.splits sum.splits)
  from Cons.prems(1) have whole: "\<forall>r \<in> set rs. wholeRecord e r" and dist: "distinct (map fst rs)"
    and valid': "\<forall>rs \<in> set recs. (\<forall>r \<in> set rs. wholeRecord e r) \<and> distinct (map fst rs)"
    by simp_all
  have d: "drop 0 (encodeStream rs) = encodeStream rs" by simp
  have idx: "l_indexInCell initialLocals = 0" by (simp add: initialLocals_def)
  have u0: "\<forall>r \<in> set rs. unwrittenFrom sub (cellFeature x e (Some (fst r)) fs)"
    using cellFeature_unwrittenFrom [OF Cons.prems(3)] by blast
  from r have r0: "streamLoop x e sub (encodeStream rs) (Some (int 0)) initialLocals fs
                     = Some (Inr fs1)" by simp
  from streamLoop_records [OF whole dist d idx r0 u0] have
    first: "\<forall>c s en vs. (c, s, en, vs) \<in> set rs \<longrightarrow>
            (\<exists>f. map_of fs1 (Some c) = Some f
               \<and> denseLengths sub f = (if hasSample e vs then (Some (length vs), Some (length vs))
                                        else (None, None)))"
    by blast
  from streamLoop_unwrittenFrom [OF r Cons.prems(3)]
  have u1: "\<forall>key f. map_of fs1 key = Some f \<longrightarrow> unwrittenFrom (Suc sub) f" .
  note ih = Cons.IH [OF valid' rest u1]
  show ?case
  proof (intro allI impI)
    fix i c s en vs
    assume i: "i < length (rs # recs)" and m: "(c, s, en, vs) \<in> set ((rs # recs) ! i)"
    show "\<exists>f. map_of hs (Some c) = Some f
               \<and> denseLengths (sub + i) f
                   = (if hasSample e vs then (Some (length vs), Some (length vs)) else (None, None))"
    proof (cases i)
      case 0
      with m first have "\<exists>f. map_of fs1 (Some c) = Some f
               \<and> denseLengths sub f = (if hasSample e vs then (Some (length vs), Some (length vs))
                                        else (None, None))" by simp
      from sublayersLoop_keeps_lengths [OF rest _ this] 0 show ?thesis by simp
    next
      case (Suc i')
      with i m ih show ?thesis by simp
    qed
  qed
qed

lemma getCellTimeseries_features:
  assumes "getCellTimeseries x intArrays opts = Some (Inr out)"
    and "fourwingsOf opts = Some po" and "opt_initialTimeRange po = Some tr"
    and "makeEnv x (length intArrays) po tr = Inr e"
  shows "\<exists>fs. sublayersLoop x e 0 intArrays [] = Some (Inr fs) \<and> wellFormed x e fs
            \<and> out = objectValues fs"
proof -
  from assms obtain fs where l: "sublayersLoop x e 0 intArrays [] = Some (Inr fs)"
    and o: "out = objectValues fs"
    by (auto simp add: getCellTimeseries_def split: sum.splits option.splits)
  from l wellFormed_Nil have "wellFormed x e fs" by (rule sublayersLoop_wellFormed)
  with l o show ?thesis by blast
qed

lemma returned_feature:
  assumes wf: "wellFormed x e fs" and m: "map_of fs key = Some f"
  shows "f \<in> set (objectValues fs) \<and> cellNum f = key"
proof -
  from m have "(key, f) \<in> set fs" by (rule map_of_SomeD)
  then have "f \<in> snd ` set fs" by force
  then have "f \<in> set (objectValues fs)" by (simp only: set_objectValues)
  moreover from wf m have "materialized x e key f" by (simp add: wellFormed_def)
  then have "cellNum f = key" by (simp add: materialized_def)
  ultimately show ?thesis by simp
qed

lemma readCell_no_error:
  assumes wf: "wellFormed x e fs"
    and n: "numCellValuesOf e (l_startFrame l) (map_option (\<lambda>v. int v - tileStartFrame e) val) = Some n"
    and b: "0 \<le> n" "n \<le> 4294967295"
  shows "\<exists>l' i' fs'. readCell x e s a l val fs = Inr (l', i', fs')"
proof -
  let ?f0 = "cellFeature x e (l_cellNum l) fs"
  let ?c0 = "filledArray (sublayersLength e) (Fin 0) :: jsnum jsarray"
  from cellFeature_materialized [OF wf] have m0: "materialized x e (l_cellNum l) ?f0" .
  from cellValuesLoop_no_error [OF m0 b] obtain f1 c1 where
    lp: "cellValuesLoop e s a (the (l_startFrame l)) n (l_startIndex l) (nat n) (?f0, ?c0)
           = Inr (f1, c1)" by blast
  from n obtain sf where sf: "l_startFrame l = Some sf"
    by (auto simp add: numCellValuesOf_def split: option.splits)
  from m0 lp have "materialized x e (l_cellNum l) f1" by (rule cellValuesLoop_materialized)
  then have "initialValues f1 (timeRangeKey e) \<noteq> None" by (simp add: materialized_def)
  from averageValue_no_error [OF this] obtain f' where
    av: "averageValue e s (f1, c1) = Inr f'" by blast
  from lp av n sf show ?thesis
    by (simp add: readCell_def readCellValues_def Let_def)
qed

lemma streamLoop_records_return:
  assumes whole: "\<forall>r \<in> set rs. wholeRecord e r"
    and small: "\<forall>r \<in> set rs. validLength r"
    and d: "drop k a = encodeStream rs" and idx: "l_indexInCell l = 0"
    and wf: "wellFormed x e fs"
  shows "\<exists>gs. streamLoop x e sub a (Some (int k)) l fs = Some (Inr gs) \<and> wellFormed x e gs"
  using assms
proof (induction rs arbitrary: k l fs)
  case Nil
  from Nil.prems(3) have "length (drop k a) < 3" by (simp add: encodeStream_def)
  from streamLoop_tail [OF this Nil.prems(4), of x e sub fs] Nil.prems(5) show ?case by simp
next
  case (Cons r rs)
  obtain c s en vs where r: "r = (c, s, en, vs)" by (cases r) auto
  from Cons.prems(3) r have d: "drop k a = c # s # en # vs @ encodeStream rs"
    by (simp add: encodeStream_def encodeRecord_def)
  from Cons.prems(1) r have w: "int (length vs) = (int en - int s + 1) * sublayers e"
    by (simp add: wholeRecord_def)
  from Cons.prems(2) r have sm: "int (length vs) \<le> 4294967295"
    by (simp add: validLength_def)
  note idx = Cons.prems(4) and wf = Cons.prems(5)
  from streamLoop_record [OF d idx, of e x sub fs] obtain h where
    h: "l_cellNum h = Some c" "l_startFrame h = Some (int s - tileStartFrame e)"
      "l_startIndex h = int k + 3"
    and st: "case readCell x e sub a h (Some en) fs of
                   Inl err \<Rightarrow> streamLoop x e sub a (Some (int k)) l fs = Some (Inl err)
                 | Inr (l', i', fs') \<Rightarrow>
                     \<exists>l''. l_indexInCell l'' = 0
                       \<and> streamLoop x e sub a (Some (int k)) l fs
                           = streamLoop x e sub a
                               (Some (int k + 3 + (int en - int s + 1) * sublayers e)) l'' fs'"
    by blast
  from h w have n: "numCellValuesOf e (l_startFrame h)
                      (map_option (\<lambda>v. int v - tileStartFrame e) (Some en)) = Some (int (length vs))"
    by (simp add: numCellValuesOf_def)
  from readCell_no_error [OF wf n _ sm, of sub a] obtain l' i' fs1 where
    rc: "readCell x e sub a h (Some en) fs = Inr (l', i', fs1)" by auto
  from wf rc have wf1: "wellFormed x e fs1" by (rule readCell_wellFormed)
  from st rc w obtain l'' where idx': "l_indexInCell l'' = 0"
    and step: "streamLoop x e sub a (Some (int k)) l fs
                 = streamLoop x e sub a (Some (int (k + 3 + length vs))) l'' fs1"
    by auto
  from d have "drop k a = (c # s # en # vs) @ encodeStream rs" by simp
  from drop_drop_record [OF this]
  have "drop (k + length (c # s # en # vs)) a = encodeStream rs" .
  moreover have "k + length (c # s # en # vs) = k + 3 + length vs" by simp
  ultimately have d': "drop (k + 3 + length vs) a = encodeStream rs" by (simp only:)
  from Cons.prems(1,2) have "\<forall>r \<in> set rs. wholeRecord e r"
    and "\<forall>r \<in> set rs. validLength r" by simp_all
  from Cons.IH [OF this d' idx' wf1] step show ?case by simp
qed

lemma sublayersLoop_records_return:
  assumes "\<forall>rs \<in> set recs. \<forall>r \<in> set rs. wholeRecord e r \<and> validLength r"
    and "wellFormed x e fs"
  shows "\<exists>hs. sublayersLoop x e sub (map (\<lambda>rs. Some (encodeStream rs)) recs) fs = Some (Inr hs)"
  using assms
proof (induction recs arbitrary: sub fs)
  case Nil
  then show ?case by simp
next
  case (Cons rs recs)
  from Cons.prems(1) have whole: "\<forall>r \<in> set rs. wholeRecord e r"
    and small: "\<forall>r \<in> set rs. validLength r"
    and rest: "\<forall>rs \<in> set recs. \<forall>r \<in> set rs. wholeRecord e r \<and> validLength r"
    by simp_all
  have d: "drop 0 (encodeStream rs) = encodeStream rs" by simp
  have idx: "l_indexInCell initialLocals = 0" by (simp add: initialLocals_def)
  from streamLoop_records_return [OF whole small d idx Cons.prems(2), of sub] obtain fs1 where
    r: "streamLoop x e sub (encodeStream rs) (Some 0) initialLocals fs = Some (Inr fs1)"
    and wf1: "wellFormed x e fs1" by auto
  from Cons.IH [OF rest wf1, of "Suc sub"] r show ?case by simp
qed

section \<open>A record read backwards\<close>

text \<open>
  A stream of the three tokens of one record with \<open>numCellValues\<close> equal to \<open>-1\<close> or
  \<open>-2\<close>: line 171 sets \<^verbatim>\<open>i\<close> to the third or to the second token, which are read
  again, as the head of a record that the stream does not hold.
\<close>

lemma streamLoop_backwards:
  assumes n: "(int en - int s + 1) * sublayers e = k" and k: "- 3 < k" "k < 0"
  shows "\<exists>f'. streamLoop x e sub [c, s, en] (Some 0) initialLocals [] = Some (Inr [(Some c, f')])
              \<and> withoutData f' \<and> cellNum f' = Some c"
proof -
  let ?a = "[c, s, en]"
  have d: "drop 0 ?a = c # s # en # []" by simp
  have idx: "l_indexInCell initialLocals = 0" by (simp add: initialLocals_def)
  from streamLoop_record [OF d idx, of e x sub "[]"] obtain h where
    h: "l_cellNum h = Some c" "l_startFrame h = Some (int s - tileStartFrame e)"
      "l_startIndex h = int 0 + 3"
    and st: "case readCell x e sub ?a h (Some en) [] of
                   Inl err \<Rightarrow> streamLoop x e sub ?a (Some (int 0)) initialLocals [] = Some (Inl err)
                 | Inr (l', i', fs') \<Rightarrow>
                     \<exists>l''. l_indexInCell l'' = 0
                       \<and> streamLoop x e sub ?a (Some (int 0)) initialLocals []
                           = streamLoop x e sub ?a
                               (Some (int 0 + 3 + (int en - int s + 1) * sublayers e)) l'' fs'"
    by blast
  have "\<forall>n j. numCellValuesOf e (l_startFrame h) (map_option (\<lambda>v. int v - tileStartFrame e) (Some en))
                 = Some n \<and> int j < n
               \<longrightarrow> isNoData e (streamGet ?a (int j + l_startIndex h))"
    using n k h by (simp add: numCellValuesOf_def)
  from readCell_without_samples [OF wellFormed_Nil this, of x sub] obtain f' l' i' where
    rc: "readCell x e sub ?a h (Some en) []
           = Inr (l', i', AList.update (l_cellNum h) f' (addFeature x e (l_cellNum h) []))"
    and ar: "values f' = values (cellFeature x e (l_cellNum h) [])"
      "dates f' = dates (cellFeature x e (l_cellNum h) [])"
      "startOffsets f' = startOffsets (cellFeature x e (l_cellNum h) [])"
    by blast
  let ?fs = "[(Some c, f')] :: features"
  from h have fs: "AList.update (l_cellNum h) f' (addFeature x e (l_cellNum h) []) = ?fs"
    by (simp add: addFeature_def)
  from rc fs have rc': "readCell x e sub ?a h (Some en) [] = Inr (l', i', ?fs)" by simp
  from wellFormed_Nil rc' have "wellFormed x e ?fs" by (rule readCell_wellFormed)
  then have "materialized x e (Some c) f'" by (simp add: wellFormed_def)
  then have cn: "cellNum f' = Some c" by (simp add: materialized_def)
  from ar withoutData_newFeature [of x e "l_cellNum h"] have wd: "withoutData f'"
    by (simp add: withoutData_def cellFeature_def)
  from st rc' n obtain l'' where idx': "l_indexInCell l'' = 0"
    and step: "streamLoop x e sub ?a (Some 0) initialLocals []
                 = streamLoop x e sub ?a (Some (3 + k)) l'' ?fs"
    by auto
  from k have m: "3 + k = int (nat (3 + k))" and "0 < nat (3 + k)" by simp_all
  then have "length (drop (nat (3 + k)) ?a) < 3" by simp
  from streamLoop_tail [OF this idx', of x e sub ?fs] m
  have "streamLoop x e sub ?a (Some (3 + k)) l'' ?fs = Some (Inr ?fs)" by simp
  with step wd cn show ?thesis by simp
qed

section \<open>A stream that is undefined\<close>

text \<open>The loop of line 64 over two lists of streams, one after the other.\<close>

lemma sublayersLoop_append:
  "sublayersLoop x e s (arrs @ others) fs
     = (case sublayersLoop x e s arrs fs of
          None \<Rightarrow> None
        | Some (Inl err) \<Rightarrow> Some (Inl err)
        | Some (Inr fs') \<Rightarrow> sublayersLoop x e (s + length arrs) others fs')"
  by (induction x e s arrs fs rule: sublayersLoop.induct)
    (simp_all split: option.splits sum.splits)

section \<open>One value of a cell\<close>

text \<open>
  C5. A raw sample that equals the sentinel \<open>noDataValue\<close>, which is \<open>2^32 - 1 = 4294967295\<close>
  when the options do not give one, changes nothing: the round of the loop returns the
  feature, with its dense arrays \<open>values\<close> and \<open>dates\<close> and its \<open>initialValues\<close>, and the
  counter of the samples in range as it received them, so the sample's position in the
  dense arrays stays as it was, a hole when nothing else wrote it.
\<close>

theorem noDataValue_sample_is_skipped:
  assumes "makeEnv x n po tr = Inr e"
    and "streamGet subLayerIntArray (int j + startIndex) = Some v"
    and "int v = (case opt_noDataValue po of None \<Rightarrow> 4294967295 | Some s \<Rightarrow> s)"
  shows "addCellValue e subLayerIndex subLayerIntArray startFrame numCellValues startIndex j st
           = Inr st"
proof -
  from assms(1) have "noDataValue e = (case opt_noDataValue po of None \<Rightarrow> 4294967295 | Some s \<Rightarrow> s)"
    by (auto simp: makeEnv_def NO_DATA_VALUE_def Let_def split: option.splits)
  with assms(2,3) have "isNoData e (streamGet subLayerIntArray (int j + startIndex))"
    by (simp add: isNoData_def)
  then show ?thesis
    by (simp add: addCellValue_def split: prod.splits)
qed

theorem noDataValue_sample_is_skipped_witness:
  "makeEnv demoExternals 1 (demoParseOptions 1 0 1) \<lparr>range_start = 0, range_end = 1\<rparr>
     = Inr (demoEnv 1 1 0 1)
   \<and> streamGet [5, 0, 0, 4294967295] (int 0 + 3) = Some 4294967295
   \<and> int 4294967295
       = (case opt_noDataValue (demoParseOptions 1 0 1) of None \<Rightarrow> 4294967295 | Some s \<Rightarrow> s)
   \<and> addCellValue (demoEnv 1 1 0 1) 0 [5, 0, 0, 4294967295] 0 1 3 0
        (newFeature demoExternals (demoEnv 1 1 0 1) (Some 5), filledArray 1 (Fin 0))
       = Inr (newFeature demoExternals (demoEnv 1 1 0 1) (Some 5), filledArray 1 (Fin 0))"
proof -
  have h1: "makeEnv demoExternals 1 (demoParseOptions 1 0 1) \<lparr>range_start = 0, range_end = 1\<rparr>
              = Inr (demoEnv 1 1 0 1)"
    by (rule makeEnv_demo)
  have h2: "streamGet [5, 0, 0, 4294967295] (int 0 + 3) = Some 4294967295"
    by (simp add: streamGet_def)
  have h3: "int 4294967295
              = (case opt_noDataValue (demoParseOptions 1 0 1) of None \<Rightarrow> 4294967295 | Some s \<Rightarrow> s)"
    by (simp add: demoParseOptions_def)
  show ?thesis
    using h1 h2 h3 noDataValue_sample_is_skipped [OF h1 h2 h3] by simp
qed




section \<open>The aggregate of the time range\<close>

text \<open>
  C1, as the specification states it, fails. With two bands per frame, the time range of
  the frame \<open>0\<close> alone and the record \<open>[5, 0, 0, 5, 7]\<close> of the cell \<open>5\<close> (one frame, the
  samples \<open>5\<close> and \<open>7\<close>), the sample at position \<open>1\<close> is no sentinel and its frame
  \<open>0 + floor (1 / 2) = 0\<close> is in the range, yet the aggregate and the counter are the same,
  \<open>5\<close> and \<open>1\<close>, after the first sample and after the second: the code tests \<open>1 + 0 < 1\<close>.
\<close>

theorem aggregate_of_samples_in_range_counterexample:
  "specInTimeRange (demoEnv 1 2 0 1) 0 1
   \<and> \<not> isNoData (demoEnv 1 2 0 1) (streamGet [5, 0, 0, 5, 7] (int 1 + 3))
   \<and> map_sum id (aggregateOf (demoEnv 1 2 0 1) 0)
        (cellValuesLoop (demoEnv 1 2 0 1) 0 [5, 0, 0, 5, 7] 0 2 3 1
           (newFeature demoExternals (demoEnv 1 2 0 1) (Some 5), filledArray 1 (Fin 0)))
       = Inr (Some (Fin 5), Some (Fin 1))
   \<and> map_sum id (aggregateOf (demoEnv 1 2 0 1) 0)
        (cellValuesLoop (demoEnv 1 2 0 1) 0 [5, 0, 0, 5, 7] 0 2 3 2
           (newFeature demoExternals (demoEnv 1 2 0 1) (Some 5), filledArray 1 (Fin 0)))
       = Inr (Some (Fin 5), Some (Fin 1))"
  by (simp add: specInTimeRange_def aggregateOf_def initialValueAt_def cell_eval array_eval demo_eval)

text \<open>
  C1, amended. For a sample at position \<open>j\<close> that is not the sentinel, the transformed
  value is added to \<open>initialValues[rangeKey][sublayer]\<close>, and the counter of the sublayer is
  incremented, if and only if \<open>j + startFrame\<close>, with the position \<open>j\<close> itself, lies in the
  half-open range from \<open>timeRangeStartFrame\<close> to \<open>timeRangeEndFrame\<close>; the aggregate starts
  at \<open>0\<close> when the sample is the first that the sublayer writes for the cell. When the
  aggregation is \<^verbatim>\<open>'avg'\<close> the aggregate is divided by the counter, and this is done once,
  after the loop over the values of the record.
\<close>

theorem aggregate_of_samples_in_range:
  "(\<not> isNoData e (streamGet subLayerIntArray (int j + startIndex))
      \<and> addCellValue e subLayerIndex subLayerIntArray startFrame numCellValues startIndex j (f, c)
          = Inr (f', c')
    \<longrightarrow> (if timeRangeStartFrame e \<le> int j + startFrame \<and> int j + startFrame < timeRangeEndFrame e
         then aggregateOf e subLayerIndex (f', c')
                = (Some (jsadd (if aprops (values f) (int subLayerIndex) = None then Fin 0
                                else toNumber (initialValueAt f (timeRangeKey e) subLayerIndex))
                          (transformed e (streamGet subLayerIntArray (int j + startIndex)))),
                   Some (jsadd (toNumber (aprops c (int subLayerIndex))) (Fin 1)))
         else initialValueAt f' (timeRangeKey e) subLayerIndex
                = (if aprops (values f) (int subLayerIndex) = None then Some (Fin 0)
                   else initialValueAt f (timeRangeKey e) subLayerIndex)
              \<and> c' = c))
   \<and> (averageValue e subLayerIndex (g, d) = Inr g'
    \<longrightarrow> initialValueAt g' (timeRangeKey e) subLayerIndex
          = (if aggregationOperation e = ''avg''
             then Some (jsdiv (toNumber (initialValueAt g (timeRangeKey e) subLayerIndex))
                         (toNumber (aprops d (int subLayerIndex))))
             else initialValueAt g (timeRangeKey e) subLayerIndex))
   \<and> (readCell x e subLayerIndex subLayerIntArray l val fs = Inr (l', i', fs')
    \<longrightarrow> (\<exists>st h. readCellValues e subLayerIndex subLayerIntArray (l_startFrame l) (l_startIndex l)
                   (numCellValuesOf e (l_startFrame l) (map_option (\<lambda>v. int v - tileStartFrame e) val))
                   (cellFeature x e (l_cellNum l) fs, filledArray (sublayersLength e) (Fin 0)) = Inr st
                \<and> averageValue e subLayerIndex st = Inr h
                \<and> map_of fs' (l_cellNum l) = Some h))"
proof (intro conjI impI)
  assume "\<not> isNoData e (streamGet subLayerIntArray (int j + startIndex))
      \<and> addCellValue e subLayerIndex subLayerIntArray startFrame numCellValues startIndex j (f, c)
          = Inr (f', c')"
  then show "if timeRangeStartFrame e \<le> int j + startFrame \<and> int j + startFrame < timeRangeEndFrame e
         then aggregateOf e subLayerIndex (f', c')
                = (Some (jsadd (if aprops (values f) (int subLayerIndex) = None then Fin 0
                                else toNumber (initialValueAt f (timeRangeKey e) subLayerIndex))
                          (transformed e (streamGet subLayerIntArray (int j + startIndex)))),
                   Some (jsadd (toNumber (aprops c (int subLayerIndex))) (Fin 1)))
         else initialValueAt f' (timeRangeKey e) subLayerIndex
                = (if aprops (values f) (int subLayerIndex) = None then Some (Fin 0)
                   else initialValueAt f (timeRangeKey e) subLayerIndex)
              \<and> c' = c"
    by (auto simp add: addCellValue_def storeValue_def sumValue_def createSublayerProperties_def
        inTimeRange_def aggregateOf_def initialValueAt_def toNumber_def Let_def
        split: sum.splits option.splits if_splits)
next
  assume "averageValue e subLayerIndex (g, d) = Inr g'"
  then show "initialValueAt g' (timeRangeKey e) subLayerIndex
          = (if aggregationOperation e = ''avg''
             then Some (jsdiv (toNumber (initialValueAt g (timeRangeKey e) subLayerIndex))
                         (toNumber (aprops d (int subLayerIndex))))
             else initialValueAt g (timeRangeKey e) subLayerIndex)"
    by (auto simp add: averageValue_def initialValueAt_def split: if_splits option.splits)
next
  assume "readCell x e subLayerIndex subLayerIntArray l val fs = Inr (l', i', fs')"
  then show "\<exists>st h. readCellValues e subLayerIndex subLayerIntArray (l_startFrame l) (l_startIndex l)
                   (numCellValuesOf e (l_startFrame l) (map_option (\<lambda>v. int v - tileStartFrame e) val))
                   (cellFeature x e (l_cellNum l) fs, filledArray (sublayersLength e) (Fin 0)) = Inr st
                \<and> averageValue e subLayerIndex st = Inr h
                \<and> map_of fs' (l_cellNum l) = Some h"
    by (auto simp add: readCell_def Let_def update_conv' split: sum.splits)
qed

theorem aggregate_of_samples_in_range_witness:
  "\<exists>f1 c1 f2 c2 h l' i' fs'.
     \<not> isNoData avgEnv (streamGet [5, 10, 11, 3, 7] (int 1 + 3))
   \<and> cellValuesLoop avgEnv 0 [5, 10, 11, 3, 7] 10 2 3 1
        (newFeature demoExternals avgEnv (Some 5), filledArray 1 (Fin 0)) = Inr (f1, c1)
   \<and> addCellValue avgEnv 0 [5, 10, 11, 3, 7] 10 2 3 1 (f1, c1) = Inr (f2, c2)
   \<and> averageValue avgEnv 0 (f2, c2) = Inr h
   \<and> readCell demoExternals avgEnv 0 [5, 10, 11, 3, 7] avgLocals (Some 11) [] = Inr (l', i', fs')
   \<and> aggregateOf avgEnv 0 (f1, c1) = (Some (Fin 3), Some (Fin 1))
   \<and> aggregateOf avgEnv 0 (f2, c2) = (Some (Fin 10), Some (Fin 2))
   \<and> initialValueAt h ''range'' 0 = Some (Fin 5)
   \<and> map_of fs' (Some 5) = Some h"
proof -
  let ?S = "[5, 10, 11, 3, 7] :: nat list"
  have nd: "\<not> isNoData avgEnv (streamGet ?S (int 1 + 3))"
    by (simp add: avgEnv_def isNoData_def array_eval demo_eval)
  have "\<exists>f1 c1 f2 c2 h l' i' fs'.
     cellValuesLoop avgEnv 0 ?S 10 2 3 1
        (newFeature demoExternals avgEnv (Some 5), filledArray 1 (Fin 0)) = Inr (f1, c1)
   \<and> addCellValue avgEnv 0 ?S 10 2 3 1 (f1, c1) = Inr (f2, c2)
   \<and> averageValue avgEnv 0 (f2, c2) = Inr h
   \<and> readCell demoExternals avgEnv 0 ?S avgLocals (Some 11) [] = Inr (l', i', fs')
   \<and> aggregateOf avgEnv 0 (f1, c1) = (Some (Fin 3), Some (Fin 1))
   \<and> aprops (values f1) (int 0) \<noteq> None"
    by (simp add: avgEnv_def avgLocals_def aggregateOf_def initialValueAt_def cell_eval array_eval demo_eval
          numCellValuesOf_def addFeature_def cellFeature_def readCellValues_def readCell_def)
  then obtain f1 c1 f2 c2 h l' i' fs' where
      l1: "cellValuesLoop avgEnv 0 ?S 10 2 3 1
        (newFeature demoExternals avgEnv (Some 5), filledArray 1 (Fin 0)) = Inr (f1, c1)"
    and a2: "addCellValue avgEnv 0 ?S 10 2 3 1 (f1, c1) = Inr (f2, c2)"
    and av: "averageValue avgEnv 0 (f2, c2) = Inr h"
    and rc: "readCell demoExternals avgEnv 0 ?S avgLocals (Some 11) [] = Inr (l', i', fs')"
    and g1: "aggregateOf avgEnv 0 (f1, c1) = (Some (Fin 3), Some (Fin 1))"
    and v1: "aprops (values f1) (int 0) \<noteq> None"
    by blast
  note inst = aggregate_of_samples_in_range [where e = avgEnv and subLayerIntArray = "?S" and j = 1
      and startIndex = 3 and subLayerIndex = 0 and startFrame = 10 and numCellValues = 2
      and f = f1 and c = c1 and f' = f2 and c' = c2 and g = f2 and d = c2 and g' = h
      and x = demoExternals and l = avgLocals and val = "Some 11" and fs = "[]"
      and l' = l' and i' = i' and fs' = fs']
  from inst nd a2 have
    g2: "aggregateOf avgEnv 0 (f2, c2) = (Some (Fin 10), Some (Fin 2))"
    using g1 v1
    by (simp add: avgEnv_def demoEnv_def aggregateOf_def  transformed_def streamGet_def toNumber_def)
  from inst av g2 have hv: "initialValueAt h ''range'' 0 = Some (Fin 5)"
    by (simp add: avgEnv_def demoEnv_def aggregateOf_def toNumber_def)
  from inst rc obtain st h' where
    "readCellValues avgEnv 0 ?S (l_startFrame avgLocals) (l_startIndex avgLocals)
        (numCellValuesOf avgEnv (l_startFrame avgLocals) (map_option (\<lambda>v. int v - tileStartFrame avgEnv) (Some 11)))
        (cellFeature demoExternals avgEnv (l_cellNum avgLocals) [], filledArray (sublayersLength avgEnv) (Fin 0)) = Inr st"
    and "averageValue avgEnv 0 st = Inr h'" and "map_of fs' (l_cellNum avgLocals) = Some h'"
    by blast
  moreover have "readCellValues avgEnv 0 ?S (l_startFrame avgLocals) (l_startIndex avgLocals)
        (numCellValuesOf avgEnv (l_startFrame avgLocals) (map_option (\<lambda>v. int v - tileStartFrame avgEnv) (Some 11)))
        (cellFeature demoExternals avgEnv (l_cellNum avgLocals) [], filledArray (sublayersLength avgEnv) (Fin 0)) = Inr (f2, c2)"
    using l1 a2
    by (simp add: readCellValues_def numCellValuesOf_def cellFeature_def avgLocals_def avgEnv_def demoEnv_def
          cellValuesLoop_numeral)
  ultimately have "map_of fs' (Some 5) = Some h"
    using av by (simp add: avgLocals_def)
  with nd l1 a2 av rc g1 g2 hv show ?thesis by blast
qed

section \<open>The lengths of the dense arrays\<close>

text \<open>
  C2, as the specification states it, fails, in three ways. With two bands per frame the
  record \<open>[5, 0, 0, 5, 7]\<close> covers one frame, the frame \<open>0\<close>, and the two arrays of the
  decoded feature have the length \<open>2\<close>. With one band per frame and two records of the
  cell \<open>5\<close> in one stream, of one frame and of two frames, the arrays have the length
  \<open>2\<close>, in whichever order the records come. And a record whose samples are all the
  sentinel leaves the sublayer without arrays.
\<close>

theorem dense_array_lengths_counterexample:
  "map_option (map_sum id (map (denseLengths 0)))
     (getCellTimeseries demoExternals [Some [5, 0, 0, 5, 7]] (demoOptions 2 0 1))
     = Some (Inr [(Some 2, Some 2)])
   \<and> int 2 \<noteq> 0 - 0 + 1
   \<and> map_option (map_sum id (map (denseLengths 0)))
       (getCellTimeseries demoExternals [Some [5, 0, 0, 3, 5, 0, 1, 4, 5]] (demoOptions 1 0 1))
     = Some (Inr [(Some 2, Some 2)])
   \<and> map_option (map_sum id (map (denseLengths 0)))
       (getCellTimeseries demoExternals [Some [5, 0, 1, 4, 5, 5, 0, 0, 3]] (demoOptions 1 0 1))
     = Some (Inr [(Some 2, Some 2)])
   \<and> map_option (map_sum id (map (denseLengths 0)))
       (getCellTimeseries demoExternals [Some [5, 0, 0, 4294967295]] (demoOptions 1 0 1))
     = Some (Inr [(None, None)])"
  by (simp add: denseLengths_def decode_eval)

text \<open>
  C2, amended. In a decode whose streams are concatenations of whole records, with at most
  one record for a cell in a stream, take the record of a cell in the stream of a
  sublayer. When the record has a sample that is not the sentinel, the returned feature
  of the cell has \<open>values[sublayer].length = dates[sublayer].length
  = (endFrame - startFrame + 1) * sublayers\<close>: the number of samples of the record, which is
  its number of frames when there is one band per frame. When all its samples are the
  sentinel, the feature has neither array for the sublayer.

  In every decode that returns, the arrays \<open>values[sublayer]\<close> and \<open>dates[sublayer]\<close> of a
  returned feature are both there or both absent, and have the same length.

  A decode of whole records, none with more than \<open>2^32 - 1\<close> values, returns.
\<close>

theorem dense_array_lengths:
  "(fourwingsOf opts = Some po \<and> opt_initialTimeRange po = Some tr
      \<and> makeEnv x (length recs) po tr = Inr e
      \<and> (\<forall>rs \<in> set recs. (\<forall>r \<in> set rs. wholeRecord e r) \<and> distinct (map fst rs))
      \<and> getCellTimeseries x (map (\<lambda>rs. Some (encodeStream rs)) recs) opts = Some (Inr out)
      \<and> subLayerIndex < length recs
      \<and> (cellIndex, startFrame, endFrame, vs) \<in> set (recs ! subLayerIndex)
    \<longrightarrow> (\<exists>f \<in> set out. cellNum f = Some cellIndex
          \<and> (if hasSample e vs
               then \<exists>va da. aprops (values f) (int subLayerIndex) = Some va
                      \<and> aprops (dates f) (int subLayerIndex) = Some da
                      \<and> int (alength va) = (int endFrame - int startFrame + 1) * sublayers e
                      \<and> int (alength da) = (int endFrame - int startFrame + 1) * sublayers e
               else aprops (values f) (int subLayerIndex) = None
                      \<and> aprops (dates f) (int subLayerIndex) = None)))
   \<and> (getCellTimeseries x intArrays opts = Some (Inr gs) \<and> g \<in> set gs
    \<longrightarrow> map_option alength (aprops (values g) s) = map_option alength (aprops (dates g) s))
   \<and> (fourwingsOf opts = Some po \<and> opt_initialTimeRange po = Some tr
      \<and> makeEnv x (length recs) po tr = Inr e
      \<and> (\<forall>rs \<in> set recs. \<forall>r \<in> set rs. wholeRecord e r \<and> validLength r)
    \<longrightarrow> (\<exists>hs. getCellTimeseries x (map (\<lambda>rs. Some (encodeStream rs)) recs) opts
                  = Some (Inr hs)))"
proof (intro conjI impI)
  assume a: "fourwingsOf opts = Some po \<and> opt_initialTimeRange po = Some tr
      \<and> makeEnv x (length recs) po tr = Inr e
      \<and> (\<forall>rs \<in> set recs. (\<forall>r \<in> set rs. wholeRecord e r) \<and> distinct (map fst rs))
      \<and> getCellTimeseries x (map (\<lambda>rs. Some (encodeStream rs)) recs) opts = Some (Inr out)
      \<and> subLayerIndex < length recs
      \<and> (cellIndex, startFrame, endFrame, vs) \<in> set (recs ! subLayerIndex)"
  let ?arrs = "map (\<lambda>rs. Some (encodeStream rs)) recs"
  from a have run: "getCellTimeseries x ?arrs opts = Some (Inr out)"
    and po: "fourwingsOf opts = Some po" and tr: "opt_initialTimeRange po = Some tr"
    and e: "makeEnv x (length ?arrs) po tr = Inr e"
    and valid: "\<forall>rs \<in> set recs. (\<forall>r \<in> set rs. wholeRecord e r) \<and> distinct (map fst rs)"
    and i: "subLayerIndex < length recs"
    and m: "(cellIndex, startFrame, endFrame, vs) \<in> set (recs ! subLayerIndex)"
    by simp_all
  from getCellTimeseries_features [OF run po tr e] obtain fs where
    l: "sublayersLoop x e 0 ?arrs [] = Some (Inr fs)" and wf: "wellFormed x e fs"
    and o: "out = objectValues fs" by blast
  have "\<forall>key f. map_of ([] :: features) key = Some f \<longrightarrow> unwrittenFrom 0 f" by simp
  from sublayersLoop_records [OF valid l this] i m obtain f where
    f: "map_of fs (Some cellIndex) = Some f"
    and dl: "denseLengths (0 + subLayerIndex) f
               = (if hasSample e vs then (Some (length vs), Some (length vs)) else (None, None))"
    by blast
  from returned_feature [OF wf f] o have mem: "f \<in> set out" and c: "cellNum f = Some cellIndex"
    by simp_all
  from i m have "recs ! subLayerIndex \<in> set recs" by simp
  with valid m have "wholeRecord e (cellIndex, startFrame, endFrame, vs)" by blast
  then have w: "int (length vs) = (int endFrame - int startFrame + 1) * sublayers e"
    by (simp add: wholeRecord_def)
  have "if hasSample e vs
        then \<exists>va da. aprops (values f) (int subLayerIndex) = Some va
               \<and> aprops (dates f) (int subLayerIndex) = Some da
               \<and> int (alength va) = (int endFrame - int startFrame + 1) * sublayers e
               \<and> int (alength da) = (int endFrame - int startFrame + 1) * sublayers e
        else aprops (values f) (int subLayerIndex) = None
               \<and> aprops (dates f) (int subLayerIndex) = None"
    using dl w by (auto simp add: denseLengths_def)
  with mem c show "\<exists>f \<in> set out. cellNum f = Some cellIndex
          \<and> (if hasSample e vs
               then \<exists>va da. aprops (values f) (int subLayerIndex) = Some va
                      \<and> aprops (dates f) (int subLayerIndex) = Some da
                      \<and> int (alength va) = (int endFrame - int startFrame + 1) * sublayers e
                      \<and> int (alength da) = (int endFrame - int startFrame + 1) * sublayers e
               else aprops (values f) (int subLayerIndex) = None
                      \<and> aprops (dates f) (int subLayerIndex) = None)"
    by blast
next
  assume a: "getCellTimeseries x intArrays opts = Some (Inr gs) \<and> g \<in> set gs"
  from getCellTimeseries_result [of x intArrays opts gs] a obtain e' fs where
    l: "sublayersLoop x e' 0 intArrays [] = Some (Inr fs)" and wf: "wellFormed x e' fs"
    and o: "gs = objectValues fs" by auto
  from a o obtain kf where kf: "kf \<in> set fs" and g: "g = snd kf"
    by (auto simp add: set_objectValues)
  from wf have "distinct (map fst fs)" by (simp add: wellFormed_def)
  moreover from kf have "(fst kf, snd kf) \<in> set fs" by simp
  ultimately have "map_of fs (fst kf) = Some (snd kf)" by (rule map_of_is_SomeI)
  with sublayersLoop_equalLengths [OF l] g have "equalLengths g" by blast
  then show "map_option alength (aprops (values g) s) = map_option alength (aprops (dates g) s)"
    by (simp add: equalLengths_def)
next
  assume a: "fourwingsOf opts = Some po \<and> opt_initialTimeRange po = Some tr
      \<and> makeEnv x (length recs) po tr = Inr e
      \<and> (\<forall>rs \<in> set recs. \<forall>r \<in> set rs. wholeRecord e r \<and> validLength r)"
  then have "\<forall>rs \<in> set recs. \<forall>r \<in> set rs. wholeRecord e r \<and> validLength r" by simp
  from sublayersLoop_records_return [OF this wellFormed_Nil, of x 0] obtain fs where
    "sublayersLoop x e 0 (map (\<lambda>rs. Some (encodeStream rs)) recs) [] = Some (Inr fs)" by blast
  with a show "\<exists>hs. getCellTimeseries x (map (\<lambda>rs. Some (encodeStream rs)) recs) opts
                  = Some (Inr hs)"
    by (simp add: getCellTimeseries_def)
qed

theorem dense_array_lengths_witness:
  "\<exists>out f va da.
     fourwingsOf (demoOptions 2 0 1) = Some (demoParseOptions 2 0 1)
   \<and> opt_initialTimeRange (demoParseOptions 2 0 1) = Some \<lparr>range_start = 0, range_end = 1\<rparr>
   \<and> makeEnv demoExternals
        (length ([[(5, 0, 0, [5, 7]), (2, 0, 0, [4294967295, 4294967295])]]
                   :: cell_record list list))
        (demoParseOptions 2 0 1) \<lparr>range_start = 0, range_end = 1\<rparr> = Inr (demoEnv 1 2 0 1)
   \<and> (\<forall>rs \<in> set [[(5, 0, 0, [5, 7]), (2, 0, 0, [4294967295, 4294967295])]].
         (\<forall>r \<in> set rs. wholeRecord (demoEnv 1 2 0 1) r) \<and> distinct (map fst rs))
   \<and> (\<forall>rs \<in> set [[(5, 0, 0, [5, 7]), (2, 0, 0, [4294967295, 4294967295])]].
         \<forall>r \<in> set rs. wholeRecord (demoEnv 1 2 0 1) r \<and> validLength r)
   \<and> getCellTimeseries demoExternals
        (map (\<lambda>rs. Some (encodeStream rs))
           [[(5, 0, 0, [5, 7]), (2, 0, 0, [4294967295, 4294967295])]])
        (demoOptions 2 0 1) = Some (Inr out)
   \<and> 0 < length ([[(5, 0, 0, [5, 7]), (2, 0, 0, [4294967295, 4294967295])]]
                     :: cell_record list list)
   \<and> (5, 0, 0, [5, 7])
        \<in> set (([[(5, 0, 0, [5, 7]), (2, 0, 0, [4294967295, 4294967295])]]
                   :: cell_record list list) ! 0)
   \<and> hasSample (demoEnv 1 2 0 1) [5, 7]
   \<and> map cellNum out = [Some 2, Some 5]
   \<and> map (denseLengths 0) out = [(None, None), (Some 2, Some 2)]
   \<and> f \<in> set out \<and> cellNum f = Some 5
   \<and> aprops (values f) (int 0) = Some va \<and> aprops (dates f) (int 0) = Some da
   \<and> int (alength va) = 2 \<and> int (alength da) = 2
   \<and> map_option alength (aprops (values f) 7) = map_option alength (aprops (dates f) 7)"
proof -
  let ?E = "demoEnv 1 2 0 1"
  let ?R = "[[(5, 0, 0, [5, 7]), (2, 0, 0, [4294967295, 4294967295])]] :: cell_record list list"
  have h1: "fourwingsOf (demoOptions 2 0 1) = Some (demoParseOptions 2 0 1)"
    by (simp add: fourwingsOf_def demoOptions_def)
  have h2: "opt_initialTimeRange (demoParseOptions 2 0 1) = Some \<lparr>range_start = 0, range_end = 1\<rparr>"
    by (simp add: demoParseOptions_def)
  have h3: "makeEnv demoExternals (length ?R) (demoParseOptions 2 0 1)
              \<lparr>range_start = 0, range_end = 1\<rparr> = Inr ?E"
    using makeEnv_demo [of 1 2 0 1] by simp
  have h4: "\<forall>rs \<in> set ?R. (\<forall>r \<in> set rs. wholeRecord ?E r) \<and> distinct (map fst rs)"
    by (simp add: wholeRecord_def demoEnv_def)
  have h9: "\<forall>rs \<in> set ?R. \<forall>r \<in> set rs. wholeRecord ?E r \<and> validLength r"
    by (simp add: wholeRecord_def validLength_def demoEnv_def)
  note inst = dense_array_lengths [where x = demoExternals and opts = "demoOptions 2 0 1"
      and po = "demoParseOptions 2 0 1" and tr = "\<lparr>range_start = 0, range_end = 1\<rparr>"
      and e = ?E and recs = ?R and subLayerIndex = 0 and cellIndex = 5
      and startFrame = 0 and endFrame = 0 and vs = "[5, 7]"]
  from inst [THEN conjunct2, THEN conjunct2, THEN mp, OF conjI [OF h1 conjI [OF h2 conjI [OF h3 h9]]]]
  obtain out where
    h5: "getCellTimeseries demoExternals (map (\<lambda>rs. Some (encodeStream rs)) ?R)
           (demoOptions 2 0 1) = Some (Inr out)" by blast
  have "map_option (map_sum id (\<lambda>out. (map cellNum out, map (denseLengths 0) out)))
          (getCellTimeseries demoExternals (map (\<lambda>rs. Some (encodeStream rs)) ?R)
             (demoOptions 2 0 1))
          = Some (Inr ([Some 2, Some 5], [(None, None), (Some 2, Some 2)]))"
    by (simp add: encodeStream_def encodeRecord_def denseLengths_def decode_eval)
  with h5 have o: "map cellNum out = [Some 2, Some 5]"
      "map (denseLengths 0) out = [(None, None), (Some 2, Some 2)]" by simp_all
  have h6: "0 < length ?R" by simp
  have h7: "(5, 0, 0, [5, 7]) \<in> set (?R ! 0)" by simp
  have h8: "hasSample ?E [5, 7]" by (simp add: hasSample_def demoEnv_def)
  have n: "(int 0 - int 0 + 1) * sublayers ?E = 2" by (simp add: demoEnv_def)
  from inst [where out = out, THEN conjunct1, THEN mp,
      OF conjI [OF h1 conjI [OF h2 conjI [OF h3 conjI [OF h4 conjI [OF h5 conjI [OF h6 h7]]]]]]]
    h8 n
  obtain f va da where
    f: "f \<in> set out" "cellNum f = Some 5"
      "aprops (values f) (int 0) = Some va" "aprops (dates f) (int 0) = Some da"
      "int (alength va) = 2" "int (alength da) = 2"
    by auto
  note inst2 = dense_array_lengths [where x = demoExternals and opts = "demoOptions 2 0 1"
      and intArrays = "map (\<lambda>rs. Some (encodeStream rs)) ?R" and gs = out and g = f and s = 7]
  from inst2 [THEN conjunct2, THEN conjunct1, THEN mp, OF conjI [OF h5 f(1)]]
  have eq: "map_option alength (aprops (values f) 7) = map_option alength (aprops (dates f) 7)" .
  from h1 h2 h3 h4 h9 h5 h6 h7 h8 o f eq show ?thesis
    by (intro exI [of _ out] exI [of _ f] exI [of _ va] exI [of _ da] conjI)
qed

section \<open>The early exits\<close>

text \<open>
  C8, as the specification states it, fails for a missing time range:
  \<open>parseFourwings\<close> reads every buffer (lines 196 to 206) before \<open>getCellTimeseries\<close>
  tests \<open>initialTimeRange\<close> (line 42), and an exception of the reader ends the call. The
  options have no time range and the lengths \<open>[2, 0, 1]\<close>; on the first buffer, the bytes
  \<open>8\<close> and \<open>1\<close>, the reader throws.
\<close>

theorem empty_input_yields_no_features_counterexample:
  "(case fourwingsOf (noRangeOptions [2, 0, 1]) of
      None \<Rightarrow> None | Some po \<Rightarrow> opt_initialTimeRange po) = None
   \<and> readPackedFields demoExternals (take 2 (drop 0 [8, 1, 5])) = Inl TypeError
   \<and> parseFourwings demoExternals [8, 1, 5] (noRangeOptions [2, 0, 1]) = Some (Inl TypeError)"
  by (simp add: fourwingsOf_def buffersLengthOf_def parseFourwings_def demo_eval)

text \<open>
  C8, amended. When the list \<open>buffersLength\<close> is absent or empty, \<open>parseFourwings\<close> returns
  the empty sequence of features and reads no buffer. When \<open>initialTimeRange\<close> is absent,
  \<open>getCellTimeseries\<close> returns the empty sequence whatever the streams are, and
  \<open>parseFourwings\<close> returns it when the reader has returned for every buffer. When the
  reader throws on a buffer, \<open>parseFourwings\<close> throws its exception, with or without a
  time range.
\<close>

theorem empty_input_yields_no_features:
  "(buffersLengthOf opts = None \<or> buffersLengthOf opts = Some []
      \<longrightarrow> parseFourwings x datasetsBuffer opts = Some (Inr []))
   \<and> ((case fourwingsOf opts of None \<Rightarrow> None | Some po \<Rightarrow> opt_initialTimeRange po) = None
      \<longrightarrow> getCellTimeseries x intArrays opts = Some (Inr []))
   \<and> ((case fourwingsOf opts of None \<Rightarrow> None | Some po \<Rightarrow> opt_initialTimeRange po) = None
        \<and> buffersLengthOf opts = Some buffersLength
        \<and> splitBuffers x datasetsBuffer 0 buffersLength = Inr streams
      \<longrightarrow> parseFourwings x datasetsBuffer opts = Some (Inr []))
   \<and> (buffersLengthOf opts = Some buffersLength \<and> buffersLength \<noteq> []
        \<and> splitBuffers x datasetsBuffer 0 buffersLength = Inl err
      \<longrightarrow> parseFourwings x datasetsBuffer opts = Some (Inl err))"
  by (auto simp add: parseFourwings_def getCellTimeseries_def buffersLengthOf_def
        split: option.splits)

theorem empty_input_yields_no_features_witness:
  "buffersLengthOf noBuffersOptions = Some []
   \<and> parseFourwings demoExternals [8, 1, 5] noBuffersOptions = Some (Inr [])
   \<and> (case fourwingsOf (noRangeOptions [3, 0, 3]) of
         None \<Rightarrow> None | Some po \<Rightarrow> opt_initialTimeRange po) = None
   \<and> getCellTimeseries demoExternals [Some [5, 0, 0, 7]] (noRangeOptions [3, 0, 3]) = Some (Inr [])
   \<and> buffersLengthOf (noRangeOptions [3, 0, 3]) = Some [3, 0, 3]
   \<and> splitBuffers demoExternals [10, 1, 7, 10, 1, 9] 0 [3, 0, 3] = Inr [Some [7], Some [], Some [9]]
   \<and> parseFourwings demoExternals [10, 1, 7, 10, 1, 9] (noRangeOptions [3, 0, 3]) = Some (Inr [])
   \<and> buffersLengthOf (demoOptions 1 0 1) = None
   \<and> parseFourwings demoExternals [8, 1, 5] (demoOptions 1 0 1) = Some (Inr [])
   \<and> buffersLengthOf (noRangeOptions [2, 0, 1]) = Some [2, 0, 1] \<and> [2, 0, 1 :: nat] \<noteq> []
   \<and> splitBuffers demoExternals [8, 1, 5] 0 [2, 0, 1] = Inl TypeError
   \<and> parseFourwings demoExternals [8, 1, 5] (noRangeOptions [2, 0, 1]) = Some (Inl TypeError)"
proof -
  have b: "buffersLengthOf noBuffersOptions = Some []"
    by (simp add: buffersLengthOf_def fourwingsOf_def demo_eval)
  have r: "(case fourwingsOf (noRangeOptions [3, 0, 3]) of
              None \<Rightarrow> None | Some po \<Rightarrow> opt_initialTimeRange po) = None"
    by (simp add: fourwingsOf_def demo_eval)
  have l: "buffersLengthOf (noRangeOptions [3, 0, 3]) = Some [3, 0, 3]"
    by (simp add: buffersLengthOf_def fourwingsOf_def demo_eval)
  have s: "splitBuffers demoExternals [10, 1, 7, 10, 1, 9] 0 [3, 0, 3]
             = Inr [Some [7], Some [], Some [9]]"
    by (simp add: demoExternals_def)
  have d: "buffersLengthOf (demoOptions 1 0 1) = None"
    by (simp add: buffersLengthOf_def fourwingsOf_def demo_eval)
  have l2: "buffersLengthOf (noRangeOptions [2, 0, 1]) = Some [2, 0, 1]"
    by (simp add: buffersLengthOf_def fourwingsOf_def demo_eval)
  have n: "[2, 0, 1 :: nat] \<noteq> []" by simp
  have s2: "splitBuffers demoExternals [8, 1, 5] 0 [2, 0, 1] = Inl TypeError"
    by (simp add: demoExternals_def)
  note i0 = empty_input_yields_no_features [where opts = "demoOptions 1 0 1" and x = demoExternals
      and datasetsBuffer = "[8, 1, 5]"]
  note i1 = empty_input_yields_no_features [where opts = noBuffersOptions and x = demoExternals
      and datasetsBuffer = "[8, 1, 5]"]
  note i2 = empty_input_yields_no_features [where opts = "noRangeOptions [3, 0, 3]"
      and x = demoExternals and datasetsBuffer = "[10, 1, 7, 10, 1, 9]"
      and intArrays = "[Some [5, 0, 0, 7]]" and buffersLength = "[3, 0, 3]"
      and streams = "[Some [7], Some [], Some [9]]"]
  note i3 = empty_input_yields_no_features [where opts = "noRangeOptions [2, 0, 1]"
      and x = demoExternals and datasetsBuffer = "[8, 1, 5]" and buffersLength = "[2, 0, 1]"
      and err = TypeError]
  from i0 [THEN conjunct1, THEN mp, OF disjI1 [OF d]]
  have p0: "parseFourwings demoExternals [8, 1, 5] (demoOptions 1 0 1) = Some (Inr [])" .
  from i1 [THEN conjunct1, THEN mp, OF disjI2 [OF b]]
  have p1: "parseFourwings demoExternals [8, 1, 5] noBuffersOptions = Some (Inr [])" .
  from i2 [THEN conjunct2, THEN conjunct1, THEN mp, OF r]
  have p2: "getCellTimeseries demoExternals [Some [5, 0, 0, 7]] (noRangeOptions [3, 0, 3])
              = Some (Inr [])" .
  from i2 [THEN conjunct2, THEN conjunct2, THEN conjunct1, THEN mp, OF conjI [OF r conjI [OF l s]]]
  have p3: "parseFourwings demoExternals [10, 1, 7, 10, 1, 9] (noRangeOptions [3, 0, 3])
              = Some (Inr [])" .
  from i3 [THEN conjunct2, THEN conjunct2, THEN conjunct2, THEN mp, OF conjI [OF l2 conjI [OF n s2]]]
  have p4: "parseFourwings demoExternals [8, 1, 5] (noRangeOptions [2, 0, 1])
              = Some (Inl TypeError)" .
  from b p1 r p2 l s p3 d p0 l2 n s2 p4 show ?thesis by (intro conjI)
qed

section \<open>The order of the features\<close>

text \<open>
  C3, as the specification states it, fails. In the stream \<open>[5, 0, 0, 1, 2, 0, 0, 1]\<close> the
  cell \<open>5\<close> is encountered first and the cell \<open>2\<close> second, and this is the order of their
  creation in \<^verbatim>\<open>features\<close>; the returned sequence has the cell \<open>2\<close> first.
\<close>

theorem features_in_ascending_order_of_cell_counterexample:
  "map_option (map_sum id (map fst))
     (sublayersLoop demoExternals (demoEnv 1 1 0 1) 0 [Some [5, 0, 0, 1, 2, 0, 0, 1]] [])
     = Some (Inr [Some 5, Some 2])
   \<and> map_option (map_sum id (map cellNum))
       (getCellTimeseries demoExternals [Some [5, 0, 0, 1, 2, 0, 0, 1]] (demoOptions 1 0 1))
     = Some (Inr [Some 2, Some 5])"
  by (simp add: decode_eval)

text \<open>
  C3, amended. The returned sequence is \<^verbatim>\<open>Object.values(features)\<close>. The features whose
  cell index is an array index, that is below \<open>2^32 - 1\<close>, come first and in strictly
  ascending order of the cell index, whatever the order in which the cells were
  encountered; the features with another key follow them.
\<close>

theorem features_in_ascending_order_of_cell:
  assumes "getCellTimeseries x intArrays opts = Some (Inr out)"
  shows "sorted_wrt (<) (map (\<lambda>f. the (cellNum f)) (filter (\<lambda>f. isArrayIndex (cellNum f)) out))
       \<and> out = filter (\<lambda>f. isArrayIndex (cellNum f)) out
                @ filter (\<lambda>f. \<not> isArrayIndex (cellNum f)) out"
proof -
  from getCellTimeseries_result [OF assms] consider "out = []"
    | e fs where "wellFormed x e fs" "out = objectValues fs" by blast
  then show ?thesis
  proof cases
    case 1
    then show ?thesis by simp
  next
    case 2
    have "objectValues fs = filter (\<lambda>f. isArrayIndex (cellNum f)) (objectValues fs)
                @ filter (\<lambda>f. \<not> isArrayIndex (cellNum f)) (objectValues fs)"
      unfolding objectValues_order [OF 2(1)] by (simp add: objectValues_def)
    with objectValues_sorted [OF 2(1)] 2(2) show ?thesis by simp
  qed
qed

theorem features_in_ascending_order_of_cell_witness:
  "\<exists>out. getCellTimeseries demoExternals [Some [5, 0, 0, 1, 2, 0, 0, 1]] (demoOptions 1 0 1)
            = Some (Inr out)
     \<and> map cellNum out = [Some 2, Some 5]
     \<and> sorted_wrt (<) (map (\<lambda>f. the (cellNum f)) (filter (\<lambda>f. isArrayIndex (cellNum f)) out))
     \<and> out = filter (\<lambda>f. isArrayIndex (cellNum f)) out
                @ filter (\<lambda>f. \<not> isArrayIndex (cellNum f)) out"
proof -
  have "\<exists>out. getCellTimeseries demoExternals [Some [5, 0, 0, 1, 2, 0, 0, 1]] (demoOptions 1 0 1)
            = Some (Inr out) \<and> map cellNum out = [Some 2, Some 5]"
    by (simp add: decode_eval)
  then obtain out where
    h: "getCellTimeseries demoExternals [Some [5, 0, 0, 1, 2, 0, 0, 1]] (demoOptions 1 0 1)
            = Some (Inr out)"
    and c: "map cellNum out = [Some 2, Some 5]" by auto
  from features_in_ascending_order_of_cell [OF h] h c show ?thesis
    by (intro exI [of _ out] conjI) (elim conjE, assumption)+
qed

section \<open>One feature for each cell\<close>




section \<open>A record of sentinels\<close>



section \<open>No bands per frame\<close>

text \<open>
  C7, as the specification states it, fails: the code has no check of \<open>sublayers\<close> and no
  configuration error. With \<open>sublayers = 0\<close> the stream \<open>[5, 0, 0, 1, 2, 0, 0, 1]\<close> is decoded
  to the features of the cells \<open>1\<close> and \<open>5\<close>, and with \<open>sublayers = -1\<close> the stream
  \<open>[5, 0, 0]\<close> to the feature of the cell \<open>5\<close>.
\<close>

theorem no_bands_is_not_an_error_counterexample:
  "map_option (map_sum id (map cellNum))
     (getCellTimeseries demoExternals [Some [5, 0, 0, 1, 2, 0, 0, 1]] (demoOptions 0 0 1))
     = Some (Inr [Some 1, Some 5])
   \<and> map_option (map_sum id (map cellNum))
       (getCellTimeseries demoExternals [Some [5, 0, 0]] (demoOptions (- 1) 0 1))
     = Some (Inr [Some 5])"
  by (simp add: decode_eval)

text \<open>
  C7, amended, for options with a time range, an interval of the table and a tile.

  With \<open>sublayers\<close> zero or negative, a record of one or more frames has
  \<open>numCellValues = (endFrame - startFrame + 1) * sublayers\<close> zero or negative: its step
  reads no value and raises no exception, it puts the feature of the cell in
  \<^verbatim>\<open>features\<close>, with the arrays \<open>values\<close>, \<open>dates\<close> and \<open>startOffsets\<close> the feature had or,
  for a new feature, without an entry in them, and it sets \<^verbatim>\<open>i\<close> to
  \<open>startIndex + numCellValues - 1\<close>.

  With \<open>sublayers = 0\<close> and streams that are defined, the decode returns without an
  exception: every three tokens of a stream are read as the head of a record, the result
  has exactly one feature for each number that heads such a triple, and no feature has an
  entry for a sublayer in \<open>values\<close>, \<open>dates\<close> or \<open>startOffsets\<close>. A stream that is
  \<^verbatim>\<open>undefined\<close>, after streams that are defined, makes the decode throw the \<^verbatim>\<open>TypeError\<close>
  of line 75.

  With a negative \<open>sublayers\<close> the loop goes backwards. A stream of the three tokens of one
  record with \<open>numCellValues\<close> equal to \<open>-1\<close> or \<open>-2\<close> is decoded to the feature of the
  cell, without an entry in \<open>values\<close>, \<open>dates\<close> or \<open>startOffsets\<close>. The decode does not
  return when the first record of the first stream has \<open>numCellValues = -3\<close>, which three
  frames and \<open>sublayers = -1\<close> give.
\<close>

theorem no_bands_is_not_an_error:
  "(sublayers e \<le> 0 \<and> wellFormed x e fs
      \<and> l_startFrame l = Some (int startFrame - tileStartFrame e) \<and> startFrame \<le> endFrame
    \<longrightarrow> (int endFrame - int startFrame + 1) * sublayers e \<le> 0
        \<and> (\<exists>f'. readCell x e subLayerIndex subLayerIntArray l (Some endFrame) fs
                    = Inr (l\<lparr>l_endFrame := Some (int endFrame - tileStartFrame e),
                             l_indexInCell := - 1\<rparr>,
                           Some (l_startIndex l
                                   + (int endFrame - int startFrame + 1) * sublayers e - 1),
                           AList.update (l_cellNum l) f' (addFeature x e (l_cellNum l) fs))
              \<and> (case map_of fs (l_cellNum l) of
                    None \<Rightarrow> withoutData f'
                  | Some f \<Rightarrow> values f' = values f \<and> dates f' = dates f
                                \<and> startOffsets f' = startOffsets f)))
   \<and> (fourwingsOf opts = Some po \<and> opt_initialTimeRange po = Some tr
      \<and> makeEnv x (length streams) po tr = Inr e \<and> opt_sublayers po = 0
    \<longrightarrow> (\<exists>out. getCellTimeseries x (map Some streams) opts = Some (Inr out)
           \<and> (\<forall>f \<in> set out. withoutData f) \<and> distinct (map cellNum out)
           \<and> set (map cellNum out) = Some ` (\<Union>a \<in> set streams. set (recordHeads a))))
   \<and> (fourwingsOf opts = Some po \<and> opt_initialTimeRange po = Some tr
      \<and> makeEnv x (length streams + Suc (length others)) po tr = Inr e \<and> opt_sublayers po = 0
    \<longrightarrow> getCellTimeseries x (map Some streams @ None # others) opts = Some (Inl TypeError))
   \<and> (fourwingsOf opts = Some po \<and> opt_initialTimeRange po = Some tr
      \<and> makeEnv x 1 po tr = Inr e
      \<and> - 3 < (int endFrame - int startFrame + 1) * opt_sublayers po
      \<and> (int endFrame - int startFrame + 1) * opt_sublayers po < 0
    \<longrightarrow> (\<exists>f. getCellTimeseries x [Some [cellIndex, startFrame, endFrame]] opts = Some (Inr [f])
           \<and> cellNum f = Some cellIndex \<and> withoutData f))
   \<and> (fourwingsOf opts = Some po \<and> opt_initialTimeRange po = Some tr
      \<and> makeEnv x (Suc (length others)) po tr = Inr e
      \<and> (int endFrame - int startFrame + 1) * opt_sublayers po = - 3
    \<longrightarrow> getCellTimeseries x (Some (cellIndex # startFrame # endFrame # rest) # others) opts
          = None)"
proof (intro conjI impI)
  assume a: "sublayers e \<le> 0 \<and> wellFormed x e fs
      \<and> l_startFrame l = Some (int startFrame - tileStartFrame e) \<and> startFrame \<le> endFrame"
  then have "0 < int endFrame - int startFrame + 1" by simp
  with a show n: "(int endFrame - int startFrame + 1) * sublayers e \<le> 0"
    by (simp add: mult_le_0_iff)
  from a have nv: "numCellValuesOf e (l_startFrame l)
                      (map_option (\<lambda>v. int v - tileStartFrame e) (Some endFrame))
                    = Some ((int endFrame - int startFrame + 1) * sublayers e)"
    by (simp add: numCellValuesOf_def)
  with n have "\<forall>n j. numCellValuesOf e (l_startFrame l)
                        (map_option (\<lambda>v. int v - tileStartFrame e) (Some endFrame)) = Some n
                      \<and> int j < n
                    \<longrightarrow> isNoData e (streamGet subLayerIntArray (int j + l_startIndex l))"
    by auto
  from a have wf: "wellFormed x e fs" by simp
  from readCell_without_samples [OF wf \<open>\<forall>n j. _\<close>, of subLayerIndex] nv obtain f' where
    rc: "readCell x e subLayerIndex subLayerIntArray l (Some endFrame) fs
           = Inr (l\<lparr>l_endFrame := Some (int endFrame - tileStartFrame e), l_indexInCell := - 1\<rparr>,
                  Some (l_startIndex l + (int endFrame - int startFrame + 1) * sublayers e - 1),
                  AList.update (l_cellNum l) f' (addFeature x e (l_cellNum l) fs))"
    and ar: "values f' = values (cellFeature x e (l_cellNum l) fs)"
      "dates f' = dates (cellFeature x e (l_cellNum l) fs)"
      "startOffsets f' = startOffsets (cellFeature x e (l_cellNum l) fs)"
    by auto
  have "case map_of fs (l_cellNum l) of
          None \<Rightarrow> withoutData f'
        | Some f \<Rightarrow> values f' = values f \<and> dates f' = dates f \<and> startOffsets f' = startOffsets f"
  proof (cases "map_of fs (l_cellNum l)")
    case None
    then have "cellFeature x e (l_cellNum l) fs = newFeature x e (l_cellNum l)"
      by (simp add: cellFeature_def)
    with withoutData_newFeature [of x e "l_cellNum l"] ar have "withoutData f'"
      by (simp add: withoutData_def)
    with None show ?thesis by simp
  next
    case (Some f)
    then have "cellFeature x e (l_cellNum l) fs = f" by (simp add: cellFeature_def)
    with ar Some show ?thesis by simp
  qed
  with rc show "\<exists>f'. readCell x e subLayerIndex subLayerIntArray l (Some endFrame) fs
                    = Inr (l\<lparr>l_endFrame := Some (int endFrame - tileStartFrame e),
                             l_indexInCell := - 1\<rparr>,
                           Some (l_startIndex l
                                   + (int endFrame - int startFrame + 1) * sublayers e - 1),
                           AList.update (l_cellNum l) f' (addFeature x e (l_cellNum l) fs))
              \<and> (case map_of fs (l_cellNum l) of
                    None \<Rightarrow> withoutData f'
                  | Some f \<Rightarrow> values f' = values f \<and> dates f' = dates f
                                \<and> startOffsets f' = startOffsets f)"
    by blast
next
  assume a: "fourwingsOf opts = Some po \<and> opt_initialTimeRange po = Some tr
      \<and> makeEnv x (length streams) po tr = Inr e \<and> opt_sublayers po = 0"
  then have b: "sublayers e = 0"
    by (auto simp add: makeEnv_def Let_def split: option.splits)
  have "\<forall>key f. map_of ([] :: features) key = Some f \<longrightarrow> withoutData f" by simp
  from sublayersLoop_no_bands [OF b wellFormed_Nil this, of x 0 streams]
  obtain fs where l: "sublayersLoop x e 0 (map Some streams) [] = Some (Inr fs)"
    and wf: "wellFormed x e fs" and wd: "\<forall>key f. map_of fs key = Some f \<longrightarrow> withoutData f"
    and keys: "fst ` set fs = Some ` (\<Union>a \<in> set streams. set (recordHeads a))"
    by auto
  from a l have g: "getCellTimeseries x (map Some streams) opts = Some (Inr (objectValues fs))"
    by (simp add: getCellTimeseries_def)
  have w: "withoutData f" if "f \<in> set (objectValues fs)" for f
  proof -
    from that obtain kf where kf: "kf \<in> set fs" and f: "f = snd kf"
      by (auto simp add: set_objectValues)
    from wf have "distinct (map fst fs)" by (simp add: wellFormed_def)
    moreover from kf have "(fst kf, snd kf) \<in> set fs" by simp
    ultimately have "map_of fs (fst kf) = Some (snd kf)" by (rule map_of_is_SomeI)
    with wd f show ?thesis by blast
  qed
  have "set (map cellNum (objectValues fs)) = (\<lambda>kf. cellNum (snd kf)) ` set fs"
    by (simp add: set_objectValues image_image)
  also have "\<dots> = fst ` set fs"
  proof (rule image_cong [OF refl])
    fix kf assume "kf \<in> set fs"
    with wf have "materialized x e (fst kf) (snd kf)" by (rule wellFormed_member)
    then show "cellNum (snd kf) = fst kf" by (simp add: materialized_def)
  qed
  finally have "set (map cellNum (objectValues fs))
                  = Some ` (\<Union>a \<in> set streams. set (recordHeads a))"
    using keys by simp
  with g w objectValues_distinct [OF wf]
  show "\<exists>out. getCellTimeseries x (map Some streams) opts = Some (Inr out)
           \<and> (\<forall>f \<in> set out. withoutData f) \<and> distinct (map cellNum out)
           \<and> set (map cellNum out) = Some ` (\<Union>a \<in> set streams. set (recordHeads a))"
    by blast
next
  assume a: "fourwingsOf opts = Some po \<and> opt_initialTimeRange po = Some tr
      \<and> makeEnv x (length streams + Suc (length others)) po tr = Inr e \<and> opt_sublayers po = 0"
  then have b: "sublayers e = 0"
    by (auto simp add: makeEnv_def Let_def split: option.splits)
  have "\<forall>key f. map_of ([] :: features) key = Some f \<longrightarrow> withoutData f" by simp
  from sublayersLoop_no_bands [OF b wellFormed_Nil this, of x 0 streams]
  obtain fs where "sublayersLoop x e 0 (map Some streams) [] = Some (Inr fs)" by auto
  then have "sublayersLoop x e 0 (map Some streams @ None # others) [] = Some (Inl TypeError)"
    by (simp add: sublayersLoop_append)
  with a show "getCellTimeseries x (map Some streams @ None # others) opts = Some (Inl TypeError)"
    by (simp add: getCellTimeseries_def)
next
  assume a: "fourwingsOf opts = Some po \<and> opt_initialTimeRange po = Some tr
      \<and> makeEnv x 1 po tr = Inr e
      \<and> - 3 < (int endFrame - int startFrame + 1) * opt_sublayers po
      \<and> (int endFrame - int startFrame + 1) * opt_sublayers po < 0"
  then have "sublayers e = opt_sublayers po"
    by (auto simp add: makeEnv_def Let_def split: option.splits)
  with a have k: "- 3 < (int endFrame - int startFrame + 1) * sublayers e"
    "(int endFrame - int startFrame + 1) * sublayers e < 0" by simp_all
  from streamLoop_backwards [OF refl k, of x 0 cellIndex] obtain f where
    "streamLoop x e 0 [cellIndex, startFrame, endFrame] (Some 0) initialLocals []
       = Some (Inr [(Some cellIndex, f)])"
    and "withoutData f" and "cellNum f = Some cellIndex" by blast
  with a show "\<exists>f. getCellTimeseries x [Some [cellIndex, startFrame, endFrame]] opts = Some (Inr [f])
           \<and> cellNum f = Some cellIndex \<and> withoutData f"
    by (simp add: getCellTimeseries_def objectValues_single)
next
  assume a: "fourwingsOf opts = Some po \<and> opt_initialTimeRange po = Some tr
      \<and> makeEnv x (Suc (length others)) po tr = Inr e
      \<and> (int endFrame - int startFrame + 1) * opt_sublayers po = - 3"
  then have "sublayers e = opt_sublayers po"
    by (auto simp add: makeEnv_def Let_def split: option.splits)
  with a have "(int endFrame - int startFrame + 1) * sublayers e = - 3" by simp
  from streamLoop_does_not_return [OF this wellFormed_Nil, of x 0 cellIndex rest]
  show "getCellTimeseries x (Some (cellIndex # startFrame # endFrame # rest) # others) opts = None"
    using a by (simp add: getCellTimeseries_def)
qed

theorem no_bands_is_not_an_error_witness:
  "sublayers (demoEnv 1 (- 1) 0 1) \<le> 0 \<and> wellFormed demoExternals (demoEnv 1 (- 1) 0 1) []
   \<and> l_startFrame demoLocals = Some (int 0 - tileStartFrame (demoEnv 1 (- 1) 0 1))
   \<and> (0 :: nat) \<le> 0
   \<and> (int 0 - int 0 + 1) * sublayers (demoEnv 1 (- 1) 0 1) = - 1
   \<and> (\<exists>f'. readCell demoExternals (demoEnv 1 (- 1) 0 1) 0 [5, 0, 0] demoLocals (Some 0) []
               = Inr (demoLocals\<lparr>l_endFrame := Some 0, l_indexInCell := - 1\<rparr>, Some 1,
                      [(Some 5, f')])
          \<and> withoutData f')
   \<and> fourwingsOf (demoOptions 0 0 1) = Some (demoParseOptions 0 0 1)
   \<and> opt_initialTimeRange (demoParseOptions 0 0 1) = Some \<lparr>range_start = 0, range_end = 1\<rparr>
   \<and> makeEnv demoExternals (length [[5, 0, 0, 1, 2, 0, 0, 1 :: nat]]) (demoParseOptions 0 0 1)
        \<lparr>range_start = 0, range_end = 1\<rparr> = Inr (demoEnv 1 0 0 1)
   \<and> opt_sublayers (demoParseOptions 0 0 1) = 0
   \<and> (\<exists>out. getCellTimeseries demoExternals (map Some [[5, 0, 0, 1, 2, 0, 0, 1]])
                (demoOptions 0 0 1) = Some (Inr out)
          \<and> list_all withoutData out \<and> map cellNum out = [Some 1, Some 5]
          \<and> set (map cellNum out) = Some ` set (recordHeads [5, 0, 0, 1, 2, 0, 0, 1]))
   \<and> makeEnv demoExternals (length [[5, 0, 0 :: nat]] + Suc (length ([] :: nat list option list)))
        (demoParseOptions 0 0 1) \<lparr>range_start = 0, range_end = 1\<rparr> = Inr (demoEnv 2 0 0 1)
   \<and> getCellTimeseries demoExternals [Some [5, 0, 0], None] (demoOptions 0 0 1)
       = Some (Inl TypeError)
   \<and> fourwingsOf (demoOptions (- 1) 0 1) = Some (demoParseOptions (- 1) 0 1)
   \<and> opt_initialTimeRange (demoParseOptions (- 1) 0 1) = Some \<lparr>range_start = 0, range_end = 1\<rparr>
   \<and> makeEnv demoExternals 1 (demoParseOptions (- 1) 0 1)
        \<lparr>range_start = 0, range_end = 1\<rparr> = Inr (demoEnv 1 (- 1) 0 1)
   \<and> - 3 < (int 0 - int 0 + 1) * opt_sublayers (demoParseOptions (- 1) 0 1)
   \<and> (int 0 - int 0 + 1) * opt_sublayers (demoParseOptions (- 1) 0 1) < 0
   \<and> (\<exists>f. getCellTimeseries demoExternals [Some [5, 0, 0]] (demoOptions (- 1) 0 1) = Some (Inr [f])
          \<and> cellNum f = Some 5 \<and> withoutData f)
   \<and> makeEnv demoExternals (Suc (length ([] :: nat list option list))) (demoParseOptions (- 1) 0 1)
        \<lparr>range_start = 0, range_end = 1\<rparr> = Inr (demoEnv 1 (- 1) 0 1)
   \<and> (int 2 - int 0 + 1) * opt_sublayers (demoParseOptions (- 1) 0 1) = - 3
   \<and> getCellTimeseries demoExternals [Some [5, 0, 2]] (demoOptions (- 1) 0 1) = None"
proof -
  let ?N = "demoEnv 1 (- 1) 0 1"
  have a1: "sublayers ?N \<le> 0" by (simp add: demoEnv_def)
  have a2: "wellFormed demoExternals ?N []" by (rule wellFormed_Nil)
  have a3: "l_startFrame demoLocals = Some (int 0 - tileStartFrame ?N)"
    by (simp add: demoLocals_def demoEnv_def)
  have a4: "(0 :: nat) \<le> 0" by simp
  have a5: "(int 0 - int 0 + 1) * sublayers ?N = - 1" by (simp add: demoEnv_def)
  note i1 = no_bands_is_not_an_error [where e = ?N and x = demoExternals and fs = "[]"
      and l = demoLocals and startFrame = 0 and endFrame = 0 and subLayerIndex = 0
      and subLayerIntArray = "[5, 0, 0]"]
  from i1 [THEN conjunct1, THEN mp, OF conjI [OF a1 conjI [OF a2 conjI [OF a3 a4]]]]
  obtain f' where
    "readCell demoExternals ?N 0 [5, 0, 0] demoLocals (Some 0) []
       = Inr (demoLocals\<lparr>l_endFrame := Some (int 0 - tileStartFrame ?N), l_indexInCell := - 1\<rparr>,
              Some (l_startIndex demoLocals + (int 0 - int 0 + 1) * sublayers ?N - 1),
              AList.update (l_cellNum demoLocals) f'
                (addFeature demoExternals ?N (l_cellNum demoLocals) []))"
    and "case map_of ([] :: features) (l_cellNum demoLocals) of
           None \<Rightarrow> withoutData f'
         | Some f \<Rightarrow> values f' = values f \<and> dates f' = dates f \<and> startOffsets f' = startOffsets f"
    by blast
  then have "readCell demoExternals ?N 0 [5, 0, 0] demoLocals (Some 0) []
               = Inr (demoLocals\<lparr>l_endFrame := Some 0, l_indexInCell := - 1\<rparr>, Some 1,
                      [(Some 5, f')])"
    and "withoutData f'"
    by (simp_all add: demoLocals_def demoEnv_def addFeature_def)
  then have a6: "\<exists>f'. readCell demoExternals ?N 0 [5, 0, 0] demoLocals (Some 0) []
               = Inr (demoLocals\<lparr>l_endFrame := Some 0, l_indexInCell := - 1\<rparr>, Some 1,
                      [(Some 5, f')])
          \<and> withoutData f'"
    by (intro exI [of _ f'] conjI)
  have h1: "fourwingsOf (demoOptions 0 0 1) = Some (demoParseOptions 0 0 1)"
    by (simp add: fourwingsOf_def demoOptions_def)
  have h2: "opt_initialTimeRange (demoParseOptions 0 0 1)
              = Some \<lparr>range_start = 0, range_end = 1\<rparr>"
    by (simp add: demoParseOptions_def)
  have h3: "makeEnv demoExternals (length [[5, 0, 0, 1, 2, 0, 0, 1 :: nat]])
              (demoParseOptions 0 0 1) \<lparr>range_start = 0, range_end = 1\<rparr>
              = Inr (demoEnv 1 0 0 1)"
    using makeEnv_demo [of 1 0 0 1] by simp
  have h4: "opt_sublayers (demoParseOptions 0 0 1) = 0"
    by (simp add: demoParseOptions_def)
  note i2 = no_bands_is_not_an_error [where opts = "demoOptions 0 0 1"
      and po = "demoParseOptions 0 0 1" and tr = "\<lparr>range_start = 0, range_end = 1\<rparr>"
      and x = demoExternals and streams = "[[5, 0, 0, 1, 2, 0, 0, 1]]" and e = "demoEnv 1 0 0 1"]
  from i2 [THEN conjunct2, THEN conjunct1, THEN mp, OF conjI [OF h1 conjI [OF h2 conjI [OF h3 h4]]]]
  obtain out where
    g: "getCellTimeseries demoExternals (map Some [[5, 0, 0, 1, 2, 0, 0, 1]]) (demoOptions 0 0 1)
          = Some (Inr out)"
    and w: "\<forall>f \<in> set out. withoutData f"
    and k: "set (map cellNum out)
              = Some ` (\<Union>a \<in> set [[5, 0, 0, 1, 2, 0, 0, 1]]. set (recordHeads a))"
    by blast
  from w have w': "list_all withoutData out" by (simp add: list_all_iff)
  from k have k': "set (map cellNum out) = Some ` set (recordHeads [5, 0, 0, 1, 2, 0, 0, 1])"
    by simp
  have "map_option (map_sum id (map cellNum))
          (getCellTimeseries demoExternals (map Some [[5, 0, 0, 1, 2, 0, 0, 1]]) (demoOptions 0 0 1))
          = Some (Inr [Some 1, Some 5])"
    by (simp add: decode_eval)
  with g have c: "map cellNum out = [Some 1, Some 5]" by simp
  from g w' c k' have h5: "\<exists>out. getCellTimeseries demoExternals
                (map Some [[5, 0, 0, 1, 2, 0, 0, 1]]) (demoOptions 0 0 1) = Some (Inr out)
          \<and> list_all withoutData out \<and> map cellNum out = [Some 1, Some 5]
          \<and> set (map cellNum out) = Some ` set (recordHeads [5, 0, 0, 1, 2, 0, 0, 1])"
    by (intro exI [of _ out] conjI)
  have u1: "makeEnv demoExternals (length [[5, 0, 0 :: nat]] + Suc (length ([] :: nat list option list)))
              (demoParseOptions 0 0 1) \<lparr>range_start = 0, range_end = 1\<rparr> = Inr (demoEnv 2 0 0 1)"
    using makeEnv_demo [of 2 0 0 1] by (simp add: numeral_2_eq_2)
  note i4 = no_bands_is_not_an_error [where opts = "demoOptions 0 0 1"
      and po = "demoParseOptions 0 0 1" and tr = "\<lparr>range_start = 0, range_end = 1\<rparr>"
      and x = demoExternals and streams = "[[5, 0, 0]]" and others = "[]" and e = "demoEnv 2 0 0 1"]
  from i4 [THEN conjunct2, THEN conjunct2, THEN conjunct1, THEN mp,
      OF conjI [OF h1 conjI [OF h2 conjI [OF u1 h4]]]]
  have u2: "getCellTimeseries demoExternals [Some [5, 0, 0], None] (demoOptions 0 0 1)
              = Some (Inl TypeError)" by simp
  have n1: "fourwingsOf (demoOptions (- 1) 0 1) = Some (demoParseOptions (- 1) 0 1)"
    by (simp add: fourwingsOf_def demoOptions_def)
  have n2: "opt_initialTimeRange (demoParseOptions (- 1) 0 1)
              = Some \<lparr>range_start = 0, range_end = 1\<rparr>"
    by (simp add: demoParseOptions_def)
  have n3: "makeEnv demoExternals (Suc (length ([] :: nat list option list)))
              (demoParseOptions (- 1) 0 1) \<lparr>range_start = 0, range_end = 1\<rparr> = Inr ?N"
    using makeEnv_demo [of 1 "- 1" 0 1] by simp
  have n4: "(int 2 - int 0 + 1) * opt_sublayers (demoParseOptions (- 1) 0 1) = - 3"
    by (simp add: demoParseOptions_def)
  have b1: "makeEnv demoExternals 1 (demoParseOptions (- 1) 0 1)
              \<lparr>range_start = 0, range_end = 1\<rparr> = Inr ?N"
    by (rule makeEnv_demo)
  have b2: "- 3 < (int 0 - int 0 + 1) * opt_sublayers (demoParseOptions (- 1) 0 1)"
    and b3: "(int 0 - int 0 + 1) * opt_sublayers (demoParseOptions (- 1) 0 1) < 0"
    by (simp_all add: demoParseOptions_def)
  note i5 = no_bands_is_not_an_error [where opts = "demoOptions (- 1) 0 1"
      and po = "demoParseOptions (- 1) 0 1" and tr = "\<lparr>range_start = 0, range_end = 1\<rparr>"
      and x = demoExternals and e = ?N and startFrame = 0 and endFrame = 0 and cellIndex = 5]
  from i5 [THEN conjunct2, THEN conjunct2, THEN conjunct2, THEN conjunct1, THEN mp,
      OF conjI [OF n1 conjI [OF n2 conjI [OF b1 conjI [OF b2 b3]]]]]
  have b4: "\<exists>f. getCellTimeseries demoExternals [Some [5, 0, 0]] (demoOptions (- 1) 0 1)
                  = Some (Inr [f])
          \<and> cellNum f = Some 5 \<and> withoutData f" .
  note i3 = no_bands_is_not_an_error [where opts = "demoOptions (- 1) 0 1"
      and po = "demoParseOptions (- 1) 0 1" and tr = "\<lparr>range_start = 0, range_end = 1\<rparr>"
      and x = demoExternals and others = "[]" and e = ?N and startFrame = 0 and endFrame = 2
      and cellIndex = 5 and rest = "[]"]
  from i3 [THEN conjunct2, THEN conjunct2, THEN conjunct2, THEN conjunct2, THEN mp,
      OF conjI [OF n1 conjI [OF n2 conjI [OF n3 n4]]]]
  have n5: "getCellTimeseries demoExternals [Some [5, 0, 2]] (demoOptions (- 1) 0 1) = None" .
  from a1 a2 a3 a4 a5 a6 h1 h2 h3 h4 h5 u1 u2 n1 n2 b1 b2 b3 b4 n3 n4 n5 show ?thesis by (intro conjI)
qed

section \<open>A stream that ends within a record\<close>

text \<open>
  C6, as the specification states it, fails: the code has no check of the length of a
  stream and no decode error. The stream \<open>[5, 0, 1, 7]\<close>, with one band per frame, announces
  the two samples of the frames \<open>0\<close> and \<open>1\<close> and holds one; the decode returns the feature
  of the cell \<open>5\<close>.
\<close>

theorem truncated_record_is_read_counterexample:
  "map_option (map_sum id (map cellNum))
     (getCellTimeseries demoExternals [Some [5, 0, 1, 7]] (demoOptions 1 0 1))
     = Some (Inr [Some 5])"
  by (simp add: decode_eval)

text \<open>
  C6, amended. A stream that holds the three tokens of one record and fewer values than
  the \<open>n = (endFrame - startFrame + 1) * sublayers\<close> that the record announces, \<open>n\<close> being
  at most \<open>2^32 - 1\<close>, is decoded without an exception: the result is the feature of the
  cell. A position beyond the end of the stream reads \<^verbatim>\<open>undefined\<close>, which is not the
  sentinel, so the value stored for it is \<^verbatim>\<open>NaN\<close>: the last position that the record
  writes, \<open>floor ((n - 1) / sublayers)\<close>, holds \<^verbatim>\<open>NaN\<close>.
\<close>

theorem truncated_record_is_read:
  assumes "fourwingsOf opts = Some po" and "opt_initialTimeRange po = Some tr"
    and "makeEnv x 1 po tr = Inr e"
    and "n = (int endFrame - int startFrame + 1) * sublayers e"
    and "int (length cellValues) < n" and "n \<le> 4294967295"
  shows "\<exists>f va. getCellTimeseries x [Some (cellNumber # startFrame # endFrame # cellValues)] opts
                  = Some (Inr [f])
           \<and> cellNum f = Some cellNumber
           \<and> aprops (values f) 0 = Some va
           \<and> aprops va ((n - 1) div sublayers e) = Some NaN"
proof -
  let ?a = "cellNumber # startFrame # endFrame # cellValues"
  let ?sf = "int startFrame - tileStartFrame e"
  let ?l1 = "initialLocals\<lparr>l_startIndex := 3, l_cellNum := Some cellNumber\<rparr>"
  let ?l2 = "?l1\<lparr>l_indexInCell := 1, l_startFrame := Some ?sf\<rparr>"
  let ?l3 = "?l2\<lparr>l_indexInCell := 2\<rparr>"
  let ?f0 = "newFeature x e (Some cellNumber)"
  let ?c0 = "filledArray (sublayersLength e) (Fin 0) :: jsnum jsarray"
  from assms(5) have pos: "0 < n" by linarith
  then obtain m where m: "nat n = Suc m" by (cases "nat n") auto
  with pos have nm: "n = int m + 1" by linarith
  have n': "numCellValuesOf e (Some ?sf) (Some (int endFrame - tileStartFrame e)) = Some n"
    by (simp add: numCellValuesOf_def assms(4))
  from pos have n0: "0 \<le> n" by simp
  from cellValuesLoop_no_error [OF materialized_newFeature n0 assms(6)]
  obtain f1 c1 where lp: "cellValuesLoop e 0 ?a ?sf n 3 (Suc m) (?f0, ?c0) = Inr (f1, c1)"
    by blast
  from cellValuesLoop_Suc_Inr [OF lp] obtain f2 c2 where
    last: "addCellValue e 0 ?a ?sf n 3 m (f2, c2) = Inr (f1, c1)" by auto
  from assms(5) nm have past: "int (length ?a) \<le> int m + 3" by simp
  from addCellValue_stores [OF read_past_the_end(2) [OF past] last]
  obtain va where va: "aprops (values f1) (int 0) = Some va"
    and nan: "aprops va (int m div sublayers e) = Some NaN"
    by (auto simp add: read_past_the_end(3) [OF past])
  from materialized_newFeature lp have m1: "materialized x e (Some cellNumber) f1"
    by (rule cellValuesLoop_materialized)
  then have "initialValues f1 (timeRangeKey e) \<noteq> None" by (simp add: materialized_def)
  from averageValue_no_error [OF this] obtain f' where
    av: "averageValue e 0 (f1, c1) = Inr f'" by blast
  from m1 av have m': "materialized x e (Some cellNumber) f'"
    by (rule averageValue_materialized)
  from averageValue_arrays [OF av] have v': "values f' = values f1" by simp
  have rc: "readCell x e 0 ?a ?l3 (Some endFrame) []
              = Inr (?l3\<lparr>l_endFrame := Some (int endFrame - tileStartFrame e), l_indexInCell := - 1\<rparr>,
                     Some (n + 2), [(Some cellNumber, f')])"
    using lp av n' m
    by (simp add: readCell_def readCellValues_def cellFeature_def addFeature_def
          initialLocals_def Let_def)
  have s0: "loopBody x e 0 ?a 0 initialLocals [] = Inr (?l1, Some 0, [])"
    by (simp add: loopBody_def initialLocals_def streamGet_def constants_eval)
  have s1: "loopBody x e 0 ?a 1 (?l1\<lparr>l_indexInCell := l_indexInCell ?l1 + 1\<rparr>) []
              = Inr (?l2, Some 1, [])"
    by (simp add: loopBody_def initialLocals_def streamGet_def constants_eval)
  have s2: "loopBody x e 0 ?a 2 (?l2\<lparr>l_indexInCell := l_indexInCell ?l2 + 1\<rparr>) []
              = Inr (?l3\<lparr>l_endFrame := Some (int endFrame - tileStartFrame e), l_indexInCell := - 1\<rparr>,
                     Some (n + 2), [(Some cellNumber, f')])"
    using rc by (simp add: loopBody_def initialLocals_def streamGet_def constants_eval)
  from assms(5) have stop: "\<not> n + 3 < int (length ?a)" by simp
  let ?l4 = "?l3\<lparr>l_endFrame := Some (int endFrame - tileStartFrame e), l_indexInCell := - 1\<rparr>"
  have "streamLoop x e 0 ?a (Some 0) initialLocals []
          = streamLoop x e 0 ?a (Some 1) (?l1\<lparr>l_indexInCell := l_indexInCell ?l1 + 1\<rparr>) []"
    using streamLoop_step [OF _ s0] by simp
  also have "\<dots> = streamLoop x e 0 ?a (Some 2) (?l2\<lparr>l_indexInCell := l_indexInCell ?l2 + 1\<rparr>) []"
    using streamLoop_step [OF _ s1] by simp
  also have "\<dots> = streamLoop x e 0 ?a (Some (n + 3))
                      (?l4\<lparr>l_indexInCell := l_indexInCell ?l4 + 1\<rparr>) [(Some cellNumber, f')]"
    using streamLoop_step [OF _ s2] by (simp add: add.commute)
  also have "\<dots> = Some (Inr [(Some cellNumber, f')])"
    using stop by (rule streamLoop_end)
  finally have "streamLoop x e 0 ?a (Some 0) initialLocals [] = Some (Inr [(Some cellNumber, f')])" .
  with assms(1-3) have "getCellTimeseries x [Some ?a] opts = Some (Inr [f'])"
    by (simp add: getCellTimeseries_def objectValues_single)
  moreover from m' have "cellNum f' = Some cellNumber" by (simp add: materialized_def)
  moreover from va v' have "aprops (values f') 0 = Some va" by simp
  moreover from nan nm have "aprops va ((n - 1) div sublayers e) = Some NaN" by simp
  ultimately show ?thesis by blast
qed

theorem truncated_record_is_read_witness:
  "fourwingsOf (demoOptions 1 0 1) = Some (demoParseOptions 1 0 1)
   \<and> opt_initialTimeRange (demoParseOptions 1 0 1) = Some \<lparr>range_start = 0, range_end = 1\<rparr>
   \<and> makeEnv demoExternals 1 (demoParseOptions 1 0 1) \<lparr>range_start = 0, range_end = 1\<rparr>
       = Inr (demoEnv 1 1 0 1)
   \<and> (2 :: int) = (int 1 - int 0 + 1) * sublayers (demoEnv 1 1 0 1)
   \<and> int (length [7 :: nat]) < 2 \<and> (2 :: int) \<le> 4294967295
   \<and> (\<exists>f va. getCellTimeseries demoExternals [Some [5, 0, 1, 7]] (demoOptions 1 0 1) = Some (Inr [f])
          \<and> cellNum f = Some 5 \<and> aprops (values f) 0 = Some va \<and> aprops va 1 = Some NaN)"
proof -
  have h1: "fourwingsOf (demoOptions 1 0 1) = Some (demoParseOptions 1 0 1)"
    by (simp add: fourwingsOf_def demoOptions_def)
  have h2: "opt_initialTimeRange (demoParseOptions 1 0 1)
              = Some \<lparr>range_start = 0, range_end = 1\<rparr>"
    by (simp add: demoParseOptions_def)
  have h3: "makeEnv demoExternals 1 (demoParseOptions 1 0 1) \<lparr>range_start = 0, range_end = 1\<rparr>
              = Inr (demoEnv 1 1 0 1)"
    by (rule makeEnv_demo)
  have h4: "(2 :: int) = (int 1 - int 0 + 1) * sublayers (demoEnv 1 1 0 1)"
    by (simp add: demoEnv_def)
  have h5: "int (length [7 :: nat]) < 2" by simp
  have h6: "(2 :: int) \<le> 4294967295" by simp
  have d: "((2 :: int) - 1) div sublayers (demoEnv 1 1 0 1) = 1"
    by (simp add: demoEnv_def)
  from truncated_record_is_read [OF h1 h2 h3 h4 h5 h6, of 5]
  have "\<exists>f va. getCellTimeseries demoExternals [Some [5, 0, 1, 7]] (demoOptions 1 0 1) = Some (Inr [f])
          \<and> cellNum f = Some 5 \<and> aprops (values f) 0 = Some va \<and> aprops va 1 = Some NaN"
    unfolding d by simp
  with h1 h2 h3 h4 h5 h6 show ?thesis by (intro conjI)
qed

end
